theory Spec2Isabelle
  imports Complex_Main "HOL-Library.Multiset"
begin

section \<open>Conventions of the embedding\<close>

text \<open>
  The development embeds the orchestration core of the legal council
  (\<^verbatim>\<open>orchestrator.ts\<close> and \<^verbatim>\<open>audit.ts\<close>).

  \<^item> JavaScript numbers are modelled as exact rationals; the rounding of IEEE doubles is
    not modelled.
  \<^item> JavaScript strings are modelled as \<^typ>\<open>string\<close>.
  \<^item> An optional field (\<^verbatim>\<open>_modelId?: string\<close>) is an \<^typ>\<open>'a option\<close>, with
    \<^term>\<open>None\<close> for \<^verbatim>\<open>undefined\<close>.
  \<^item> Field names that begin with an underscore in the source lose it here
    (\<^verbatim>\<open>_modelId\<close> is \<open>modelId\<close>), and the \<^verbatim>\<open>label\<close> of an aggregate ranking is
    \<open>rlabel\<close>, since record fields share one name space; \<^verbatim>\<open>method\<close> is \<open>selectionMethod\<close>.
\<close>

section \<open>Data model (types.ts)\<close>

datatype json =
    JNull
  | JBool bool
  | JNum string
  | JStr string
  | JArr "json list"
  | JObj "(string \<times> json) list"

text \<open>
  A parsed JSON value. A number is represented by its canonical JavaScript rendering
  (what \<^verbatim>\<open>String(n)\<close> prints), which determines the number; the members of an object
  are listed in the order in which JavaScript enumerates them.
\<close>

record IndividualAnalysis =
  label :: string
  content :: string
  confidence :: string
  keyPoints :: "string list"
  modelId :: "string option"
  structured :: "json option"

record PeerReview =
  reviewerLabel :: string
  evaluations :: json
  ranking :: "string list"
  rankingRationale :: string
  reviewerModelId :: "string option"

record AggregateRanking =
  rlabel :: string
  averageRank :: rat
  rankingConsistency :: rat

record StageError =
  stage :: nat
  errModelId :: "string option"
  message :: string
  recoverable :: bool

record Stage1Result =
  analyses :: "IndividualAnalysis list"
  complete1 :: bool
  errors1 :: "StageError list"

record Stage2Result =
  peerReviews :: "PeerReview list"
  aggregateRankings :: "AggregateRanking list"
  complete2 :: bool
  errors2 :: "StageError list"

section \<open>JavaScript primitives used by the code\<close>

text \<open>\<^verbatim>\<open>Array.prototype.indexOf\<close>: the first index of the element, \<^term>\<open>None\<close> for -1.\<close>

fun indexOf :: "'a list \<Rightarrow> 'a \<Rightarrow> nat option" where
  "indexOf [] x = None"
| "indexOf (y # ys) x = (if y = x then Some 0 else map_option Suc (indexOf ys x))"

text \<open>Truthiness of an optional string: \<^verbatim>\<open>undefined\<close> and the empty string are falsy.\<close>

fun truthy_str :: "string option \<Rightarrow> bool" where
  "truthy_str None = False"
| "truthy_str (Some s) = (s \<noteq> [])"

text \<open>Decimal digits of a natural number, as \<^verbatim>\<open>String(n)\<close> prints an integer.\<close>

function digits :: "nat \<Rightarrow> string" where
  "digits n = (if n < 10 then [char_of (48 + n)] else digits (n div 10) @ [char_of (48 + n mod 10)])"
  by pat_completeness auto
termination
  by (relation "measure id") auto

declare digits.simps [simp del]

text \<open>
  \<^verbatim>\<open>Number.prototype.toFixed(2)\<close> on an exact rational of magnitude below \<open>10\<^sup>2\<^sup>1\<close>: the
  nearest multiple of 1/100 (the larger one at a tie), printed with two decimals; a
  negative number keeps its sign.
\<close>

definition toFixed2 :: "rat \<Rightarrow> string" where
  "toFixed2 x =
     (let n = nat \<lfloor>\<bar>x\<bar> * 100 + 1 / 2\<rfloor>;
          s = (if x < 0 then ''-'' else '''')
      in s @ digits (n div 100) @ ''.'' @ [char_of (48 + n mod 100 div 10), char_of (48 + n mod 10)])"

section \<open>Aggregation engine (orchestrator.ts, calculateAggregateRankings)\<close>

text \<open>The inner loop: the 1-indexed rank of a label in every review that lists it.\<close>

fun collectPositions :: "PeerReview list \<Rightarrow> string \<Rightarrow> nat list" where
  "collectPositions [] l = []"
| "collectPositions (review # reviews) l =
     (case indexOf (ranking review) l of
        None \<Rightarrow> collectPositions reviews l
      | Some pos \<Rightarrow> (pos + 1) # collectPositions reviews l)"

definition avgRank :: "nat list \<Rightarrow> rat" where
  "avgRank positions = of_nat (sum_list positions) / of_nat (length positions)"

definition rankVariance :: "nat list \<Rightarrow> rat" where
  "rankVariance positions =
     sum_list (map (\<lambda>p. (of_nat p - avgRank positions)\<^sup>2) positions) / of_nat (length positions)"

definition rankingEntry :: "nat \<Rightarrow> string \<Rightarrow> nat list \<Rightarrow> AggregateRanking" where
  "rankingEntry n l positions =
     (let variance = rankVariance positions;
          maxVariance = (of_nat n - 1)\<^sup>2;
          consistency = (if maxVariance > 0 then 1 - variance / maxVariance else 1)
      in \<lparr>rlabel = l, averageRank = avgRank positions, rankingConsistency = max 0 consistency\<rparr>)"

text \<open>The outer loop, before sorting; \<open>n\<close> is \<^verbatim>\<open>analyses.length\<close>.\<close>

fun unsortedRankings :: "nat \<Rightarrow> PeerReview list \<Rightarrow> IndividualAnalysis list \<Rightarrow> AggregateRanking list" where
  "unsortedRankings n reviews [] = []"
| "unsortedRankings n reviews (analysis # rest) =
     (let positions = collectPositions reviews (label analysis)
      in if length positions > 0
         then rankingEntry n (label analysis) positions # unsortedRankings n reviews rest
         else unsortedRankings n reviews rest)"

text \<open>
  \<^verbatim>\<open>rankings.sort((a, b) => a.averageRank - b.averageRank)\<close>: a stable sort on the
  average rank.
\<close>

definition calculateAggregateRankings ::
    "PeerReview list \<Rightarrow> IndividualAnalysis list \<Rightarrow> AggregateRanking list" where
  "calculateAggregateRankings reviews as =
     sort_key averageRank (unsortedRankings (length as) reviews as)"

section \<open>Chairman selector (audit.ts, selectChairman)\<close>

datatype selection_method = UserSpecified | Algorithmic | Fallback

record Alternative =
  altModel :: string
  altAverageRank :: rat

record ChairmanSelectionResult =
  model :: string
  selectionMethod :: selection_method
  rationale :: string
  alternativesConsidered :: "Alternative list option"

text \<open>\<^verbatim>\<open>stage1.analyses.some(a => a._modelId === userOverride)\<close>\<close>

definition participated :: "Stage1Result \<Rightarrow> string \<Rightarrow> bool" where
  "participated stage1 userOverride = list_ex (\<lambda>a. modelId a = Some userOverride) (analyses stage1)"

text \<open>\<^verbatim>\<open>stage1.analyses.find(a => a.label === l)\<close>\<close>

definition findAnalysis :: "Stage1Result \<Rightarrow> string \<Rightarrow> IndividualAnalysis option" where
  "findAnalysis stage1 l = find (\<lambda>a. label a = l) (analyses stage1)"

text \<open>One entry of \<^verbatim>\<open>alternativesConsidered\<close>: \<^verbatim>\<open>analysis?._modelId || r.label\<close>.\<close>

definition alternativeOf :: "Stage1Result \<Rightarrow> AggregateRanking \<Rightarrow> Alternative" where
  "alternativeOf stage1 r =
     \<lparr>altModel = (case findAnalysis stage1 (rlabel r) of
                    None \<Rightarrow> rlabel r
                  | Some analysis \<Rightarrow> (if truthy_str (modelId analysis) then the (modelId analysis) else rlabel r)),
      altAverageRank = averageRank r\<rparr>"

text \<open>The last branch: \<^verbatim>\<open>firstResponder?._modelId || 'unknown'\<close>.\<close>

definition fallbackSelection :: "Stage1Result \<Rightarrow> ChairmanSelectionResult" where
  "fallbackSelection stage1 =
     \<lparr>model = (case analyses stage1 of
                 [] \<Rightarrow> ''unknown''
               | firstResponder # _ \<Rightarrow>
                   (if truthy_str (modelId firstResponder) then the (modelId firstResponder) else ''unknown'')),
      selectionMethod = Fallback,
      rationale = ''Fallback to first responding model (ranking data unavailable)'',
      alternativesConsidered = None\<rparr>"

text \<open>
  The function returns on every path; the warning it prints when the override did not
  participate is not part of its result and is left out.
\<close>

definition selectChairman ::
    "Stage1Result \<Rightarrow> Stage2Result \<Rightarrow> string option \<Rightarrow> ChairmanSelectionResult" where
  "selectChairman stage1 stage2 userOverride =
     (if truthy_str userOverride \<and> participated stage1 (the userOverride)
      then \<lparr>model = the userOverride, selectionMethod = UserSpecified,
            rationale = ''User specified chairman'', alternativesConsidered = None\<rparr>
      else
        (case aggregateRankings stage2 of
           [] \<Rightarrow> fallbackSelection stage1
         | topRanked # _ \<Rightarrow>
             (case findAnalysis stage1 (rlabel topRanked) of
                None \<Rightarrow> fallbackSelection stage1
              | Some topAnalysis \<Rightarrow>
                  (if truthy_str (modelId topAnalysis)
                   then \<lparr>model = the (modelId topAnalysis), selectionMethod = Algorithmic,
                         rationale = ''Highest peer-ranked analysis (avg rank ''
                                       @ toFixed2 (averageRank topRanked) @ '')'',
                         alternativesConsidered =
                           Some (map (alternativeOf stage1)
                                   (take (min 3 (length (aggregateRankings stage2)))
                                      (aggregateRankings stage2)))\<rparr>
                   else fallbackSelection stage1))))"


section \<open>Notions of the specification\<close>

text \<open>
  The positions the specification speaks of: for every review whose ranking contains the
  label, the 1-indexed place of the label's first occurrence.
\<close>

definition specPositions :: "PeerReview list \<Rightarrow> string \<Rightarrow> nat list" where
  "specPositions reviews l =
     map (\<lambda>r. length (takeWhile (\<lambda>x. x \<noteq> l) (ranking r)) + 1)
       (filter (\<lambda>r. l \<in> set (ranking r)) reviews)"

text \<open>A label is reviewed when at least one review's ranking contains it.\<close>

definition reviewed :: "PeerReview list \<Rightarrow> string \<Rightarrow> bool" where
  "reviewed reviews l = list_ex (\<lambda>r. l \<in> set (ranking r)) reviews"

text \<open>
  The consistency formula as the specification writes it,
  \<open>1 - variance / (N - 1)\<^sup>2\<close> clamped below at 0. A quotient by zero has no value, so the
  formula has none when \<open>(N - 1)\<^sup>2 = 0\<close>.
\<close>

definition claimedConsistency :: "rat \<Rightarrow> nat \<Rightarrow> rat option" where
  "claimedConsistency variance n =
     (if (of_nat n - 1 :: rat)\<^sup>2 = 0 then None
      else Some (max 0 (1 - variance / (of_nat n - 1)\<^sup>2)))"

text \<open>The example of property P4: three reviewers rank three analyses.\<close>

definition p4_analysis :: "string \<Rightarrow> string \<Rightarrow> IndividualAnalysis" where
  "p4_analysis l m =
     \<lparr>label = l, content = ''{}'', confidence = ''medium'', keyPoints = [],
      modelId = Some m, structured = Some (JObj [])\<rparr>"

definition p4_review :: "string \<Rightarrow> string list \<Rightarrow> PeerReview" where
  "p4_review l rs =
     \<lparr>reviewerLabel = l, evaluations = JObj [], ranking = rs,
      rankingRationale = ''Rationale not provided'', reviewerModelId = None\<rparr>"

definition p4_analyses :: "IndividualAnalysis list" where
  "p4_analyses = [p4_analysis ''A'' ''m1'', p4_analysis ''B'' ''m2'', p4_analysis ''C'' ''m3'']"

definition p4_reviews :: "PeerReview list" where
  "p4_reviews =
     [p4_review ''A'' [''A'', ''B'', ''C''],
      p4_review ''B'' [''B'', ''A'', ''C''],
      p4_review ''C'' [''A'', ''B'', ''C'']]"

text \<open>The override is applied when it is a non-empty model id that produced an analysis.\<close>

definition overrideApplies :: "Stage1Result \<Rightarrow> string option \<Rightarrow> bool" where
  "overrideApplies stage1 userOverride \<longleftrightarrow>
     (case userOverride of
        None \<Rightarrow> False
      | Some m \<Rightarrow> m \<noteq> [] \<and> (\<exists>a \<in> set (analyses stage1). modelId a = Some m))"

text \<open>
  The model behind the first-listed aggregate ranking: the model id, when it is present
  and not empty, of the first analysis that carries the ranking's label.
\<close>

definition topRankedModel :: "Stage1Result \<Rightarrow> Stage2Result \<Rightarrow> string option" where
  "topRankedModel stage1 stage2 =
     (case aggregateRankings stage2 of
        [] \<Rightarrow> None
      | topRanked # _ \<Rightarrow>
          (case find (\<lambda>a. label a = rlabel topRanked) (analyses stage1) of
             None \<Rightarrow> None
           | Some a \<Rightarrow>
               (case modelId a of None \<Rightarrow> None | Some m \<Rightarrow> if m = [] then None else Some m)))"

text \<open>The first responder's model id, or the sentinel when there is none to return.\<close>

definition firstResponderModel :: "Stage1Result \<Rightarrow> string" where
  "firstResponderModel stage1 =
     (case analyses stage1 of
        [] \<Rightarrow> ''unknown''
      | a # _ \<Rightarrow> (case modelId a of None \<Rightarrow> ''unknown'' | Some m \<Rightarrow> if m = [] then ''unknown'' else m))"

text \<open>The stage results of the P4 example, all three members having answered.\<close>

definition p4_stage1 :: Stage1Result where
  "p4_stage1 = \<lparr>analyses = p4_analyses, complete1 = True, errors1 = []\<rparr>"

definition p4_stage2 :: Stage2Result where
  "p4_stage2 =
     \<lparr>peerReviews = p4_reviews,
      aggregateRankings = calculateAggregateRankings p4_reviews p4_analyses,
      complete2 = True, errors2 = []\<rparr>"

section \<open>Audit trail (audit.ts)\<close>

datatype severity = Critical | Warning | Info

datatype anomaly_stage = Stage1 | Stage2 | Stage3 | CrossStage

datatype anomaly_type =
    ConfidenceMismatch | CitationConsensus | ThresholdGap | RankingOutlier
  | SynthesisDivergence | LatencyOutlier | RetryExcessive | DissentSuppression
  | QuorumRisk | SingleSourceDominance | ModelFailure

record AuditAnomaly =
  anomalyStage :: anomaly_stage
  severity :: severity
  anomalyType :: anomaly_type
  description :: string
  affectedModels :: "string list option"
  recommendation :: "string option"

datatype consensus_tier = Strong | Moderate | Weak | NoConsensus

datatype integrity_score = High | Medium | Low

record ProcessIntegrity =
  score :: integrity_score
  flags :: "string list"
  recommendations :: "string list"

record ConsensusResult =
  reached :: bool
  position :: string
  consensusConfidence :: rat
  agreementCount :: rat
  totalMembers :: rat

record CalibratedRisk =
  overallLevel :: string
  factors :: "json list"
  catastrophizingDetected :: bool
  understatingDetected :: bool
  calibrationNotes :: string

record Stage3Synthesis =
  consensus :: ConsensusResult
  issues :: "json list"
  risk :: CalibratedRisk
  dissent :: "json list"
  weaknesses :: "json list"
  openQuestions :: "string list"
  actionItems :: "json list"
  sourceAttribution :: "json list option"

record Stage3Result =
  synthesis :: Stage3Synthesis
  chairmanModel :: string
  complete3 :: bool
  errors3 :: "StageError list"

record Stage1ModelMetrics =
  latencyMs :: int
  tokensUsed :: nat
  confidenceStated :: string
  thresholdIssuesIdentified :: nat
  citationsUsed :: nat
  adversarialArgumentProvided :: bool
  retries :: nat

record Stage1Audit =
  modelsQueried :: "string list"
  modelsResponded :: "string list"
  modelsFailed :: "string list"
  perModelMetrics :: "(string \<times> Stage1ModelMetrics) list"
  anomalies1 :: "AuditAnomaly list"

record RankingStats =
  statAverageRank :: rat
  statRankVariance :: rat
  highestRank :: nat
  lowestRank :: nat

record Agreement =
  agreedWith :: "string list"
  disagreedWith :: "string list"

record OutlierReview =
  outlierReviewer :: string
  deviation :: string

record Stage2Audit =
  reviewsCompleted :: nat
  rankingConsensus :: consensus_tier
  agreementMatrix :: "(string \<times> Agreement) list"
  perAnalysisRankings :: "(string \<times> RankingStats) list"
  outlierReviews :: "OutlierReview list"
  citationsAcrossAnalyses :: "(string \<times> string list) list"
  anomalies2 :: "AuditAnomaly list"

record RiskCalibration =
  rcCatastrophizingDetected :: bool
  rcUnderstatingDetected :: bool
  calibrationAction :: string

record Stage3Audit =
  auditChairmanModel :: string
  consensusReached :: bool
  dissentPreserved :: nat
  dissentSuppressed :: nat
  riskCalibration :: RiskCalibration
  citationsInSynthesis :: nat
  sourceReliance :: "(string \<times> nat) list"
  anomalies3 :: "AuditAnomaly list"

text \<open>
  The audit matches text with regular expressions and substring tests. These heuristics
  are parameters of the model: what they return does not matter to any property below,
  and none of them raises on a string.
  \<^item> \<open>extractCitations\<close> is the method of that name;
  \<^item> \<open>normalizeCitation\<close> is \<^verbatim>\<open>citation.toLowerCase().trim()\<close>;
  \<^item> \<open>phraseHits synthesis content\<close> is the number of the first three sentences of an
    analysis that the loop of \<^verbatim>\<open>buildStage3Audit\<close> finds in the serialized synthesis;
  \<^item> \<open>synthesisCitations\<close> is \<^verbatim>\<open>countCitations(JSON.stringify(synthesis))\<close>;
  \<^item> \<open>countCitations\<close> is the method of that name, on the content of an analysis;
  \<^item> \<open>lowerCase\<close> is \<^verbatim>\<open>String.prototype.toLowerCase\<close>.
\<close>

record heuristics =
  extractCitations :: "string \<Rightarrow> string list"
  normalizeCitation :: "string \<Rightarrow> string"
  phraseHits :: "Stage3Synthesis \<Rightarrow> string \<Rightarrow> nat"
  synthesisCitations :: "Stage3Synthesis \<Rightarrow> nat"
  countCitations :: "string \<Rightarrow> nat"
  lowerCase :: "string \<Rightarrow> string"

text \<open>
  A JavaScript object or \<^verbatim>\<open>Map\<close> used as a dictionary is an association list in
  insertion order. \<open>dictSet\<close> is an assignment \<^verbatim>\<open>d[k] = v\<close>: it replaces the value of a
  key in place and appends a new key. (JavaScript enumerates keys that look like array
  indices first; session labels are letters.)
\<close>

fun dictSet :: "'k \<Rightarrow> 'v \<Rightarrow> ('k \<times> 'v) list \<Rightarrow> ('k \<times> 'v) list" where
  "dictSet k v [] = [(k, v)]"
| "dictSet k v ((k', v') # d) = (if k' = k then (k, v) # d else (k', v') # dictSet k v d)"

text \<open>
  Reading a property that is not built in (\<^verbatim>\<open>assessment\<close>, \<^verbatim>\<open>thresholdIssues\<close>,
  \<^verbatim>\<open>issue\<close>) from a value other than \<^verbatim>\<open>null\<close>: only an object can have it;
  \<^term>\<open>None\<close> is \<^verbatim>\<open>undefined\<close>.
\<close>

fun getProp :: "json \<Rightarrow> string \<Rightarrow> json option" where
  "getProp (JObj members) k = map_of members k"
| "getProp _ k = None"

text \<open>Truthiness of a JSON value.\<close>

fun truthy :: "json \<Rightarrow> bool" where
  "truthy JNull = False"
| "truthy (JBool b) = b"
| "truthy (JNum n) = (n \<noteq> ''0'')"
| "truthy (JStr s) = (s \<noteq> [])"
| "truthy (JArr _) = True"
| "truthy (JObj _) = True"

text \<open>\<^verbatim>\<open>review.ranking[0]\<close>, \<^term>\<open>None\<close> for \<^verbatim>\<open>undefined\<close>.\<close>

definition topPick :: "PeerReview \<Rightarrow> string option" where
  "topPick review = (case ranking review of [] \<Rightarrow> None | l # _ \<Rightarrow> Some l)"

subsection \<open>buildStage2Audit\<close>

text \<open>The ranking statistics of one aggregate ranking, when some review lists its label.\<close>

definition rankingStats :: "PeerReview list \<Rightarrow> string \<Rightarrow> RankingStats option" where
  "rankingStats reviews l =
     (let positions = collectPositions reviews l
      in if length positions > 0
         then Some \<lparr>statAverageRank = avgRank positions,
                    statRankVariance = rankVariance positions,
                    highestRank = fold min positions (hd positions),
                    lowestRank = fold max positions (hd positions)\<rparr>
         else None)"

fun perAnalysisRankingsOf ::
    "PeerReview list \<Rightarrow> AggregateRanking list \<Rightarrow> (string \<times> RankingStats) list
     \<Rightarrow> (string \<times> RankingStats) list" where
  "perAnalysisRankingsOf reviews [] acc = acc"
| "perAnalysisRankingsOf reviews (r # rs) acc =
     perAnalysisRankingsOf reviews rs
       (case rankingStats reviews (rlabel r) of
          None \<Rightarrow> acc
        | Some st \<Rightarrow> dictSet (rlabel r) st acc)"

text \<open>The inner loop of the agreement matrix, for one reviewer.\<close>

definition agreementOf :: "PeerReview list \<Rightarrow> PeerReview \<Rightarrow> Agreement" where
  "agreementOf reviews review =
     (let others = filter (\<lambda>other. reviewerLabel review \<noteq> reviewerLabel other) reviews
      in \<lparr>agreedWith =
             map reviewerLabel (filter (\<lambda>other. topPick review = topPick other) others),
           disagreedWith =
             map reviewerLabel (filter (\<lambda>other. topPick review \<noteq> topPick other) others)\<rparr>)"

definition agreementMatrixOf :: "PeerReview list \<Rightarrow> (string \<times> Agreement) list" where
  "agreementMatrixOf reviews =
     fold (\<lambda>review acc. dictSet (reviewerLabel review) (agreementOf reviews review) acc) reviews []"

text \<open>
  The consensus tier. \<^verbatim>\<open>new Set(topPicks).size\<close> is the number of distinct top picks,
  and \<^verbatim>\<open>Math.ceil(n / 2)\<close> is \<open>(n + 1) div 2\<close> for a natural number \<open>n\<close>.
\<close>

definition rankingConsensusOf :: "PeerReview list \<Rightarrow> consensus_tier" where
  "rankingConsensusOf reviews =
     (let topPicks = map topPick reviews;
          uniqueTopPicks = length (remdups topPicks)
      in if uniqueTopPicks = 1 then Strong
         else if uniqueTopPicks \<le> (length reviews + 1) div 2 then Moderate
         else if uniqueTopPicks < length reviews then Weak
         else NoConsensus)"

text \<open>
  A review is an outlier when the aggregate ranking of its top pick has an average rank
  above \<^verbatim>\<open>stage1.analyses.length - 0.5\<close>.
\<close>

definition isOutlier :: "Stage1Result \<Rightarrow> Stage2Result \<Rightarrow> PeerReview \<Rightarrow> bool" where
  "isOutlier stage1 stage2 review =
     (case topPick review of
        None \<Rightarrow> False
      | Some l \<Rightarrow>
          (case find (\<lambda>r. rlabel r = l) (aggregateRankings stage2) of
             None \<Rightarrow> False
           | Some aggregateRank \<Rightarrow>
               averageRank aggregateRank > of_nat (length (analyses stage1)) - 1 / 2))"

definition outlierReviewOf :: "PeerReview \<Rightarrow> OutlierReview" where
  "outlierReviewOf review =
     \<lparr>outlierReviewer = reviewerLabel review,
      deviation = ''Ranked '' @ the (topPick review) @ '' first while aggregate ranked it last''\<rparr>"

definition outlierAnomalyOf :: "PeerReview \<Rightarrow> AuditAnomaly" where
  "outlierAnomalyOf review =
     \<lparr>anomalyStage = Stage2, severity = Info, anomalyType = RankingOutlier,
      description = ''Reviewer '' @ reviewerLabel review @ '' ranked analysis ''
                      @ the (topPick review) @ '' first, but aggregate ranked it last'',
      affectedModels =
        Some [if truthy_str (reviewerModelId review) then the (reviewerModelId review)
              else reviewerLabel review],
      recommendation = None\<rparr>"

text \<open>\<^verbatim>\<open>extractCitationsPerAnalysis\<close>: a dictionary from label to citations.\<close>

definition extractCitationsPerAnalysis ::
    "heuristics \<Rightarrow> IndividualAnalysis list \<Rightarrow> (string \<times> string list) list" where
  "extractCitationsPerAnalysis h as =
     fold (\<lambda>analysis acc. dictSet (label analysis) (extractCitations h (content analysis)) acc) as []"

text \<open>\<^verbatim>\<open>citationCounts\<close>: a map from a normalized citation to the labels that use it.\<close>

definition pushLabel :: "heuristics \<Rightarrow> string \<Rightarrow> string \<Rightarrow> (string \<times> string list) list
    \<Rightarrow> (string \<times> string list) list" where
  "pushLabel h l citation counts =
     (let normalized = normalizeCitation h citation
      in case map_of counts normalized of
           None \<Rightarrow> dictSet normalized [l] counts
         | Some ls \<Rightarrow> dictSet normalized (ls @ [l]) counts)"

definition citationCountsOf ::
    "heuristics \<Rightarrow> (string \<times> string list) list \<Rightarrow> (string \<times> string list) list" where
  "citationCountsOf h perAnalysis =
     fold (\<lambda>(l, citations) counts. fold (pushLabel h l) citations counts) perAnalysis []"

definition citationAnomalyOf :: "string \<times> string list \<Rightarrow> AuditAnomaly" where
  "citationAnomalyOf entry =
     \<lparr>anomalyStage = Stage2, severity = Warning, anomalyType = CitationConsensus,
      description = digits (length (snd entry)) @ '' analyses cited \"'' @ fst entry
                      @ ''\" - verify independently for shared hallucination'',
      affectedModels = Some (snd entry),
      recommendation = Some ''Run independent citation verification on shared authority''\<rparr>"

definition buildStage2Audit :: "heuristics \<Rightarrow> Stage1Result \<Rightarrow> Stage2Result \<Rightarrow> Stage2Audit" where
  "buildStage2Audit h stage1 stage2 =
     (let outliers = filter (isOutlier stage1 stage2) (peerReviews stage2);
          citations = extractCitationsPerAnalysis h (analyses stage1);
          shared = filter (\<lambda>entry. length (snd entry) \<ge> 3) (citationCountsOf h citations)
      in \<lparr>reviewsCompleted = length (peerReviews stage2),
           rankingConsensus = rankingConsensusOf (peerReviews stage2),
           agreementMatrix = agreementMatrixOf (peerReviews stage2),
           perAnalysisRankings =
             perAnalysisRankingsOf (peerReviews stage2) (aggregateRankings stage2) [],
           outlierReviews = map outlierReviewOf outliers,
           citationsAcrossAnalyses = citations,
           anomalies2 = map outlierAnomalyOf outliers @ map citationAnomalyOf shared\<rparr>)"

subsection \<open>buildStage3Audit\<close>

text \<open>
  The key under which an analysis enters the set of positions,
  \<^verbatim>\<open>structured?.assessment as string || ''\<close>: the assessment when it is truthy, the empty
  string otherwise. A \<^verbatim>\<open>Set\<close> compares strings, numbers and booleans by value and
  objects by identity; each analysis holds its own parsed value, so an assessment that is
  an array or an object is a key of its own, identified by the index of the analysis.
\<close>

datatype position_key = ByValue json | ByIdentity nat

definition assessmentOf :: "IndividualAnalysis \<Rightarrow> json option" where
  "assessmentOf a =
     (case structured a of
        None \<Rightarrow> None
      | Some JNull \<Rightarrow> None
      | Some s \<Rightarrow> getProp s ''assessment'')"

definition positionKey :: "nat \<Rightarrow> IndividualAnalysis \<Rightarrow> position_key" where
  "positionKey i a =
     (case assessmentOf a of
        None \<Rightarrow> ByValue (JStr '''')
      | Some v \<Rightarrow>
          (if \<not> truthy v then ByValue (JStr '''')
           else case v of
                  JArr _ \<Rightarrow> ByIdentity i
                | JObj _ \<Rightarrow> ByIdentity i
                | _ \<Rightarrow> ByValue v))"

definition uniquePositions :: "IndividualAnalysis list \<Rightarrow> nat" where
  "uniquePositions as = length (remdups (map (\<lambda>(i, a). positionKey i a) (enumerate 0 as)))"

text \<open>\<^verbatim>\<open>Math.max(0, uniquePositions - 1 - dissentPreserved)\<close>, computed over the integers.\<close>

definition dissentSuppressedOf :: "Stage1Result \<Rightarrow> Stage3Result \<Rightarrow> nat" where
  "dissentSuppressedOf stage1 stage3 =
     nat (max 0 (int (uniquePositions (analyses stage1)) - 1
                 - int (length (dissent (synthesis stage3)))))"

definition dissentAnomalies :: "nat \<Rightarrow> AuditAnomaly list" where
  "dissentAnomalies suppressed =
     (if suppressed > 0
      then [\<lparr>anomalyStage = Stage3, severity = Warning, anomalyType = DissentSuppression,
             description = digits suppressed
                             @ '' potentially distinct position(s) not preserved in dissent'',
             affectedModels = None,
             recommendation = Some ''Review stage 1 analyses for suppressed minority views''\<rparr>]
      else [])"

text \<open>
  \<^verbatim>\<open>sourceReliance\<close>: every label starts at 0, then every analysis adds its phrase hits
  to the entry of its label.
\<close>

definition sourceRelianceOf ::
    "heuristics \<Rightarrow> Stage3Synthesis \<Rightarrow> IndividualAnalysis list \<Rightarrow> (string \<times> nat) list" where
  "sourceRelianceOf h syn as =
     fold (\<lambda>analysis acc.
             dictSet (label analysis)
               (the (map_of acc (label analysis)) + phraseHits h syn (content analysis)) acc)
       as
       (fold (\<lambda>analysis acc. dictSet (label analysis) 0 acc) as [])"

text \<open>The first entry with the greatest value, as the stable descending sort leaves it.\<close>

fun firstMax :: "(string \<times> nat) list \<Rightarrow> (string \<times> nat) option" where
  "firstMax [] = None"
| "firstMax (e # es) =
     (case firstMax es of
        None \<Rightarrow> Some e
      | Some m \<Rightarrow> if snd m > snd e then Some m else Some e)"

definition dominanceAnomalies :: "(string \<times> nat) list \<Rightarrow> AuditAnomaly list" where
  "dominanceAnomalies reliance =
     (let relianceValues = map snd reliance;
          totalReliance = sum_list relianceValues
      in if totalReliance > 0
         then (let maxReliance = fold max relianceValues 0;
                   dominantLabel = map_option fst (find (\<lambda>e. snd e = maxReliance) reliance)
               in if (of_nat maxReliance :: rat) / of_nat totalReliance > 7 / 10
                  then [\<lparr>anomalyStage = Stage3, severity = Warning,
                         anomalyType = SingleSourceDominance,
                         description = ''Synthesis appears to rely heavily on analysis ''
                                         @ (case dominantLabel of None \<Rightarrow> ''undefined'' | Some l \<Rightarrow> l),
                         affectedModels = None,
                         recommendation =
                           Some ''Verify synthesis incorporates diverse council perspectives''\<rparr>]
                  else [])
         else [])"

definition divergenceAnomaly :: "string \<Rightarrow> string \<Rightarrow> AuditAnomaly" where
  "divergenceAnomaly dominantLabel topRanked =
     \<lparr>anomalyStage = Stage3, severity = Critical, anomalyType = SynthesisDivergence,
      description = ''Synthesis relies on analysis '' @ dominantLabel
                      @ '' (low-ranked) while ignoring '' @ topRanked @ '' (top-ranked)'',
      affectedModels = None,
      recommendation = Some ''Review chairman synthesis for bias or error''\<rparr>"

text \<open>
  The divergence check: the dominant label and the top-ranked label when the synthesis
  relies on a low-ranked analysis while it ignores the top-ranked one.
\<close>

definition divergentPair ::
    "Stage1Result \<Rightarrow> Stage2Result \<Rightarrow> (string \<times> nat) list \<Rightarrow> (string \<times> string) option" where
  "divergentPair stage1 stage2 reliance =
     (case aggregateRankings stage2 of
        [] \<Rightarrow> None
      | topEntry # _ \<Rightarrow>
          (let topRanked = rlabel topEntry
           in if topRanked \<noteq> [] \<and> map_of reliance topRanked = Some 0
                 \<and> sum_list (map snd reliance) > 0
              then (case firstMax reliance of
                      None \<Rightarrow> None
                    | Some dominant \<Rightarrow>
                        (if fst dominant = [] then None
                         else case find (\<lambda>r. rlabel r = fst dominant) (aggregateRankings stage2) of
                                None \<Rightarrow> None
                              | Some dominantRanking \<Rightarrow>
                                  (if averageRank dominantRanking
                                        > of_nat (length (analyses stage1)) / 2
                                   then Some (fst dominant, topRanked)
                                   else None)))
              else None))"

definition divergenceAnomalies ::
    "Stage1Result \<Rightarrow> Stage2Result \<Rightarrow> (string \<times> nat) list \<Rightarrow> AuditAnomaly list" where
  "divergenceAnomalies stage1 stage2 reliance =
     (case divergentPair stage1 stage2 reliance of
        None \<Rightarrow> []
      | Some pair \<Rightarrow> [divergenceAnomaly (fst pair) (snd pair)])"

definition buildStage3Audit ::
    "heuristics \<Rightarrow> Stage1Result \<Rightarrow> Stage2Result \<Rightarrow> Stage3Result \<Rightarrow> Stage3Audit" where
  "buildStage3Audit h stage1 stage2 stage3 =
     (let syn = synthesis stage3;
          suppressed = dissentSuppressedOf stage1 stage3;
          reliance = sourceRelianceOf h syn (analyses stage1)
      in \<lparr>auditChairmanModel = chairmanModel stage3,
           consensusReached = reached (consensus syn),
           dissentPreserved = length (dissent syn),
           dissentSuppressed = suppressed,
           riskCalibration =
             \<lparr>rcCatastrophizingDetected = catastrophizingDetected (risk syn),
              rcUnderstatingDetected = understatingDetected (risk syn),
              calibrationAction =
                (if calibrationNotes (risk syn) \<noteq> [] then calibrationNotes (risk syn)
                 else ''None noted'')\<rparr>,
           citationsInSynthesis = synthesisCitations h syn,
           sourceReliance = reliance,
           anomalies3 = dissentAnomalies suppressed @ dominanceAnomalies reliance
                          @ divergenceAnomalies stage1 stage2 reliance\<rparr>)"

subsection \<open>calculateProcessIntegrity\<close>

definition MINIMUM_QUORUM :: nat where
  "MINIMUM_QUORUM = 2"

text \<open>
  The score is updated four times in sequence; \<open>flags\<close> and \<open>recommendations\<close> are the
  conditional pushes in the order of the source.
\<close>

definition calculateProcessIntegrity ::
    "Stage1Audit \<Rightarrow> Stage2Audit \<Rightarrow> Stage3Audit \<Rightarrow> AuditAnomaly list \<Rightarrow> nat \<Rightarrow> ProcessIntegrity" where
  "calculateProcessIntegrity stage1Audit stage2Audit stage3Audit crossStageAnomalies totalModels =
     (let allAnomalies = anomalies1 stage1Audit @ anomalies2 stage2Audit
                           @ anomalies3 stage3Audit @ crossStageAnomalies;
          criticalCount = length (filter (\<lambda>a. severity a = Critical) allAnomalies);
          warningCount = length (filter (\<lambda>a. severity a = Warning) allAnomalies);
          score1 = (if criticalCount > 0 then Low else High);
          score2 = (if warningCount \<ge> 3 \<and> score1 \<noteq> Low then Medium else score1);
          bareQuorum = (length (modelsResponded stage1Audit) = MINIMUM_QUORUM);
          score3 = (if bareQuorum \<and> score2 = High then Medium else score2);
          failedCount = length (modelsFailed stage1Audit);
          noConsensus = (rankingConsensus stage2Audit = NoConsensus);
          score4 = (if noConsensus \<and> score3 = High then Medium else score3);
          citationCount = length (filter (\<lambda>a. anomalyType a = CitationConsensus) allAnomalies);
          suppressed = dissentSuppressed stage3Audit
      in \<lparr>score = score4,
           flags =
             (if criticalCount > 0
              then [digits criticalCount @ '' critical anomal''
                      @ (if criticalCount > 1 then ''ies'' else ''y'') @ '' detected'']
              else [])
             @ (if warningCount \<ge> 3 \<and> score1 \<noteq> Low
                then [digits warningCount @ '' warnings detected''] else [])
             @ (if bareQuorum then [''Bare minimum quorum achieved''] else [])
             @ (if failedCount > 0
                then [digits failedCount @ '' model(s) failed to respond''] else [])
             @ (if noConsensus then [''No ranking consensus among reviewers''] else [])
             @ (if citationCount > 0
                then [digits citationCount
                        @ '' potential shared citation(s) - verify independently'']
                else [])
             @ (if suppressed > 0
                then [digits suppressed @ '' dissenting view(s) may not be preserved'']
                else []),
           recommendations =
             (if criticalCount > 0
              then [''Review critical anomalies before relying on synthesis''] else [])
             @ (if noConsensus
                then [''Council disagreed significantly - review individual analyses'']
                else [])
             @ (if citationCount > 0
                then [''Run independent citation check on shared authorities''] else [])
             @ (if suppressed > 0
                then [''Review stage 1 analyses for important minority positions'']
                else [])\<rparr>)"

text \<open>Heuristics that find nothing, for the examples.\<close>

definition noHeuristics :: heuristics where
  "noHeuristics =
     \<lparr>extractCitations = (\<lambda>text. []), normalizeCitation = (\<lambda>citation. citation),
      phraseHits = (\<lambda>syn text. 0), synthesisCitations = (\<lambda>syn. 0),
      countCitations = (\<lambda>text. 0), lowerCase = (\<lambda>text. text)\<rparr>"

text \<open>
  The assessment string of an analysis, when its structured payload carries one, and the
  number of distinct assessment strings across the Stage-1 analyses.
\<close>

definition assessmentString :: "IndividualAnalysis \<Rightarrow> string option" where
  "assessmentString a = (case assessmentOf a of Some (JStr x) \<Rightarrow> Some x | _ \<Rightarrow> None)"

definition distinctAssessments :: "Stage1Result \<Rightarrow> nat" where
  "distinctAssessments stage1 = card (set (List.map_filter assessmentString (analyses stage1)))"

text \<open>An analysis whose structured payload is an object with the given members.\<close>

definition analysisWith :: "string \<Rightarrow> string \<Rightarrow> (string \<times> json) list \<Rightarrow> IndividualAnalysis" where
  "analysisWith l m members =
     \<lparr>label = l, content = ''{}'', confidence = ''medium'', keyPoints = [],
      modelId = Some m, structured = Some (JObj members)\<rparr>"

text \<open>A synthesis with the given dissent entries, and the stage result that carries it.\<close>

definition synthesisWith :: "json list \<Rightarrow> Stage3Synthesis" where
  "synthesisWith ds =
     \<lparr>consensus = \<lparr>reached = True, position = ''p'', consensusConfidence = 1,
                    agreementCount = 2, totalMembers = 3\<rparr>,
      issues = [],
      risk = \<lparr>overallLevel = ''medium'', factors = [], catastrophizingDetected = False,
               understatingDetected = False, calibrationNotes = ''''\<rparr>,
      dissent = ds, weaknesses = [], openQuestions = [], actionItems = [],
      sourceAttribution = None\<rparr>"

definition stage3With :: "json list \<Rightarrow> Stage3Result" where
  "stage3With ds =
     \<lparr>synthesis = synthesisWith ds, chairmanModel = ''m1'', complete3 = True, errors3 = []\<rparr>"

text \<open>Three analyses with three different assessments.\<close>

definition p7_stage1 :: Stage1Result where
  "p7_stage1 =
     \<lparr>analyses = [analysisWith ''A'' ''m1'' [(''assessment'', JStr ''liable'')],
                  analysisWith ''B'' ''m2'' [(''assessment'', JStr ''not liable'')],
                  analysisWith ''C'' ''m3'' [(''assessment'', JStr ''unclear'')]],
      complete1 = True, errors1 = []\<rparr>"

section \<open>Bounded concurrent dispatcher (orchestrator.ts, withConcurrencyLimit)\<close>

text \<open>
  The event loop is modelled by interleaving. A task is what the dispatcher can see of an
  asynchronous function: the effect on the shared state of its synchronous start (up to
  its first suspension), the effect of its completion, and how its promise settles. How a
  task settles does not depend on the shared state.
\<close>

datatype 'a outcome = Resolved 'a | Threw

record ('a, 's) task =
  begin_task :: "'s \<Rightarrow> 's"
  finish_task :: "'s \<Rightarrow> 's"
  outcome :: "'a outcome"

text \<open>
  A worker is one call of \<^verbatim>\<open>runNext\<close>. It awaits the task it claimed, or its task has
  settled and it is about to resume after the \<^verbatim>\<open>await\<close>, or it has left the loop.
\<close>

datatype worker = Awaiting nat | Resuming nat | Finished

record ('a, 's) dispatcher =
  results :: "'a option list"
  currentIndex :: nat
  workers :: "worker list"
  shared :: 's

text \<open>
  The head of the loop, \<^verbatim>\<open>while (currentIndex < tasks.length) { const index =
  currentIndex++; ... await tasks[index]() }\<close>, run by worker \<open>w\<close>: it claims the next
  index and starts that task, or leaves the loop.
\<close>

definition claimNext :: "('a, 's) task list \<Rightarrow> nat \<Rightarrow> ('a, 's) dispatcher \<Rightarrow> ('a, 's) dispatcher" where
  "claimNext tasks w d =
     (if currentIndex d < length tasks
      then d\<lparr>currentIndex := currentIndex d + 1,
             workers := (workers d)[w := Awaiting (currentIndex d)],
             shared := begin_task (tasks ! currentIndex d) (shared d)\<rparr>
      else d\<lparr>workers := (workers d)[w := Finished]\<rparr>)"

text \<open>
  What the \<^verbatim>\<open>try\<close>/\<^verbatim>\<open>catch\<close> around the \<^verbatim>\<open>await\<close> stores in the slot: the resolved
  value, or \<^verbatim>\<open>null\<close> when the task threw.
\<close>

fun slotOf :: "'a outcome \<Rightarrow> 'a option" where
  "slotOf (Resolved v) = Some v"
| "slotOf Threw = None"

text \<open>
  One step of worker \<open>w\<close>: the task it awaits settles, or it resumes, stores the outcome
  at the task's index and goes back to the head of the loop.
\<close>

definition stepWorker :: "('a, 's) task list \<Rightarrow> nat \<Rightarrow> ('a, 's) dispatcher \<Rightarrow> ('a, 's) dispatcher" where
  "stepWorker tasks w d =
     (case workers d ! w of
        Awaiting i \<Rightarrow>
          d\<lparr>workers := (workers d)[w := Resuming i],
            shared := finish_task (tasks ! i) (shared d)\<rparr>
      | Resuming i \<Rightarrow>
          claimNext tasks w (d\<lparr>results := (results d)[i := slotOf (outcome (tasks ! i))]\<rparr>)
      | Finished \<Rightarrow> d)"

text \<open>The workers that can take a step.\<close>

definition enabled :: "('a, 's) dispatcher \<Rightarrow> nat list" where
  "enabled d = filter (\<lambda>w. workers d ! w \<noteq> Finished) [0..<length (workers d)]"

text \<open>
  One step of the event loop. The number \<open>c\<close> stands for what the program does not
  control, the order in which the pending promises settle: it selects one of the workers
  that can take a step.
\<close>

definition stepLoop :: "('a, 's) task list \<Rightarrow> nat \<Rightarrow> ('a, 's) dispatcher \<Rightarrow> ('a, 's) dispatcher" where
  "stepLoop tasks c d =
     (case enabled d of
        [] \<Rightarrow> d
      | w # ws \<Rightarrow> stepWorker tasks ((w # ws) ! (c mod length (w # ws))) d)"

fun runLoop :: "('a, 's) task list \<Rightarrow> nat list \<Rightarrow> ('a, 's) dispatcher \<Rightarrow> ('a, 's) dispatcher" where
  "runLoop tasks [] d = d"
| "runLoop tasks (c # cs) d = runLoop tasks cs (stepLoop tasks c d)"

text \<open>
  The state after \<^verbatim>\<open>Array(Math.min(limit, tasks.length)).fill(null).map(() =>
  runNext())\<close>: the slots hold \<^verbatim>\<open>null\<close>, and each worker in turn has run to its first
  \<^verbatim>\<open>await\<close>.
\<close>

definition startWorkers :: "('a, 's) task list \<Rightarrow> nat \<Rightarrow> 's \<Rightarrow> ('a, 's) dispatcher" where
  "startWorkers tasks limit s =
     fold (claimNext tasks) [0..<min limit (length tasks)]
       \<lparr>results = replicate (length tasks) None, currentIndex = 0,
        workers = replicate (min limit (length tasks)) Finished, shared = s\<rparr>"

text \<open>
  \<^verbatim>\<open>await Promise.all(workers); return results\<close>. The schedule lists the choices of the
  event loop. The dispatcher has returned once every worker has left its loop; the
  result is \<^term>\<open>None\<close> while some worker is still pending when the schedule ends.
\<close>

definition withConcurrencyLimit ::
    "('a, 's) task list \<Rightarrow> nat \<Rightarrow> nat list \<Rightarrow> 's \<Rightarrow> ('a option list \<times> 's) option" where
  "withConcurrencyLimit tasks limit schedule s =
     (let d = runLoop tasks schedule (startWorkers tasks limit s)
      in if enabled d = [] then Some (results d, shared d) else None)"

subsection \<open>Invariant and measure of the dispatcher\<close>

text \<open>An index is held while a worker awaits its task or is about to store its outcome.\<close>

definition held :: "('a, 's) dispatcher \<Rightarrow> nat \<Rightarrow> bool" where
  "held d i \<longleftrightarrow> (\<exists>w < length (workers d). workers d ! w = Awaiting i \<or> workers d ! w = Resuming i)"

definition dispatcher_inv :: "('a, 's) task list \<Rightarrow> nat \<Rightarrow> ('a, 's) dispatcher \<Rightarrow> bool" where
  "dispatcher_inv tasks limit d \<longleftrightarrow>
     length (results d) = length tasks \<and>
     length (workers d) = min limit (length tasks) \<and>
     currentIndex d \<le> length tasks \<and>
     (\<forall>i. held d i \<longrightarrow> i < currentIndex d) \<and>
     (\<forall>i < currentIndex d. held d i \<or> results d ! i = slotOf (outcome (tasks ! i))) \<and>
     ((\<exists>w < length (workers d). workers d ! w = Finished) \<longrightarrow> currentIndex d = length tasks)"

fun weight :: "worker \<Rightarrow> nat" where
  "weight (Awaiting i) = 2"
| "weight (Resuming i) = 1"
| "weight Finished = 0"

definition remaining :: "('a, 's) task list \<Rightarrow> ('a, 's) dispatcher \<Rightarrow> nat" where
  "remaining tasks d = 2 * (length tasks - currentIndex d) + sum_list (map weight (workers d))"

subsection \<open>The events of a run\<close>

text \<open>
  The events of a run in the order in which they happen: a task is started (its
  synchronous start runs) or it settles (its completion runs). \<open>runEvents\<close> lists the
  events of the steps that \<open>runLoop\<close> takes, \<open>trace\<close> those of a whole call of
  \<^verbatim>\<open>withConcurrencyLimit\<close>, beginning with the tasks that the workers start at once.
\<close>

datatype event = Started nat | Settled nat

fun applyEvent :: "('a, 's) task list \<Rightarrow> event \<Rightarrow> 's \<Rightarrow> 's" where
  "applyEvent tasks (Started i) = begin_task (tasks ! i)"
| "applyEvent tasks (Settled i) = finish_task (tasks ! i)"

definition workerEvents :: "('a, 's) task list \<Rightarrow> nat \<Rightarrow> ('a, 's) dispatcher \<Rightarrow> event list" where
  "workerEvents tasks w d =
     (case workers d ! w of
        Awaiting i \<Rightarrow> [Settled i]
      | Resuming i \<Rightarrow> (if currentIndex d < length tasks then [Started (currentIndex d)] else [])
      | Finished \<Rightarrow> [])"

definition loopEvents :: "('a, 's) task list \<Rightarrow> nat \<Rightarrow> ('a, 's) dispatcher \<Rightarrow> event list" where
  "loopEvents tasks c d =
     (case enabled d of
        [] \<Rightarrow> []
      | w # ws \<Rightarrow> workerEvents tasks ((w # ws) ! (c mod length (w # ws))) d)"

fun runEvents :: "('a, 's) task list \<Rightarrow> nat list \<Rightarrow> ('a, 's) dispatcher \<Rightarrow> event list" where
  "runEvents tasks [] d = []"
| "runEvents tasks (c # cs) d = loopEvents tasks c d @ runEvents tasks cs (stepLoop tasks c d)"

definition trace :: "('a, 's) task list \<Rightarrow> nat \<Rightarrow> nat list \<Rightarrow> 's \<Rightarrow> event list" where
  "trace tasks limit schedule s =
     map Started [0..<min limit (length tasks)]
       @ runEvents tasks schedule (startWorkers tasks limit s)"

text \<open>
  Invariant of the events so far: the tasks below \<open>currentIndex\<close> have been started
  once, and each of them has settled once unless a worker still awaits it.
\<close>

definition trace_inv :: "('a, 's) dispatcher \<Rightarrow> event list \<Rightarrow> bool" where
  "trace_inv d evs \<longleftrightarrow>
     (\<forall>i. count_list evs (Started i) = (if i < currentIndex d then 1 else 0) \<and>
          count_list evs (Settled i) + length (filter (\<lambda>w. w = Awaiting i) (workers d))
            = (if i < currentIndex d then 1 else 0))"


section \<open>Anonymization layer (orchestrator.ts, runStage2: the review payload)\<close>

text \<open>
  \<^verbatim>\<open>JSON.stringify(value, null, 2)\<close>. A string is quoted with the escapes of JSON: the
  quotation mark, the backslash, the short escapes of the control characters 8, 9, 10, 12
  and 13, and \<^verbatim>\<open>\u00XX\<close> for the other characters below 32.
\<close>

definition hexDigit :: "nat \<Rightarrow> char" where
  "hexDigit n = (if n < 10 then char_of (48 + n) else char_of (87 + n))"

definition escapeChar :: "char \<Rightarrow> string" where
  "escapeChar c =
     (let n = (of_char c :: nat)
      in if c = CHR 0x22 then [CHR 0x5C, CHR 0x22]
         else if c = CHR 0x5C then [CHR 0x5C, CHR 0x5C]
         else if n = 8 then [CHR 0x5C, CHR ''b'']
         else if n = 9 then [CHR 0x5C, CHR ''t'']
         else if n = 10 then [CHR 0x5C, CHR ''n'']
         else if n = 12 then [CHR 0x5C, CHR ''f'']
         else if n = 13 then [CHR 0x5C, CHR ''r'']
         else if n < 32 then [CHR 0x5C, CHR ''u'', CHR ''0'', CHR ''0'', hexDigit (n div 16), hexDigit (n mod 16)]
         else [c])"

definition quoteJSON :: "string \<Rightarrow> string" where
  "quoteJSON s = [CHR 0x22] @ concat (map escapeChar s) @ [CHR 0x22]"

definition newline :: string where
  "newline = [CHR 0x0A]"

definition indentation :: "nat \<Rightarrow> string" where
  "indentation n = replicate (2 * n) CHR '' ''"

text \<open>Joins the rendered members with a comma and a line break at the inner level.\<close>

fun joinMembers :: "nat \<Rightarrow> string list \<Rightarrow> string" where
  "joinMembers n [] = []"
| "joinMembers n [x] = x"
| "joinMembers n (x # y # ys) = x @ '','' @ newline @ indentation n @ joinMembers n (y # ys)"

fun stringify :: "nat \<Rightarrow> json \<Rightarrow> string" where
  "stringify n JNull = ''null''"
| "stringify n (JBool b) = (if b then ''true'' else ''false'')"
| "stringify n (JNum r) = r"
| "stringify n (JStr s) = quoteJSON s"
| "stringify n (JArr []) = ''[]''"
| "stringify n (JArr (x # xs)) =
     ''['' @ newline @ indentation (Suc n)
       @ joinMembers (Suc n) (map (stringify (Suc n)) (x # xs))
       @ newline @ indentation n @ '']''"
| "stringify n (JObj []) = ''{}''"
| "stringify n (JObj (m # ms)) =
     ''{'' @ newline @ indentation (Suc n)
       @ joinMembers (Suc n) (map (\<lambda>m. quoteJSON (fst m) @ '': '' @ stringify (Suc n) (snd m)) (m # ms))
       @ newline @ indentation n @ ''}''"

text \<open>
  The public view of an analysis, \<^verbatim>\<open>{ label: a.label, analysis: a._structured ||
  a.content }\<close>: the label and the structured payload, or the content when the payload
  is missing or falsy. The model id is not part of it.
\<close>

definition reviewItem :: "IndividualAnalysis \<Rightarrow> json" where
  "reviewItem a =
     JObj [(''label'', JStr (label a)),
           (''analysis'',
              (case structured a of
                 None \<Rightarrow> JStr (content a)
               | Some s \<Rightarrow> if truthy s then s else JStr (content a)))]"

definition analysesForReview :: "Stage1Result \<Rightarrow> json" where
  "analysesForReview stage1 = JArr (map reviewItem (analyses stage1))"

definition stage2PromptHead :: string where
  "stage2PromptHead =
     ''Review these anonymized legal analyses. Do NOT try to guess which model produced each.''
     @ newline @ newline @ ''ANALYSES:'' @ newline"

definition stage2PromptTail :: string where
  "stage2PromptTail =
     newline @ newline @ ''Respond with JSON containing:'' @ newline
     @ ''- evaluations: Object with analysis labels (A, B, etc.) as keys, each containing:'' @ newline
     @ ''  - legalAccuracy (1-5)'' @ newline
     @ ''  - issueIdentification (1-5)  '' @ newline
     @ ''  - riskCalibration (1-5) - neither catastrophizing nor dismissive'' @ newline
     @ ''  - practicalUtility (1-5)'' @ newline
     @ ''  - comment (optional string)'' @ newline
     @ ''- ranking: Array of analysis labels ordered best to worst (e.g., [\"B\", \"A\", \"C\"])'' @ newline
     @ ''- rankingRationale: Brief explanation for your ranking''"

definition stage2UserPrompt :: "Stage1Result \<Rightarrow> string" where
  "stage2UserPrompt stage1 =
     stage2PromptHead @ stringify 0 (analysesForReview stage1) @ stage2PromptTail"

text \<open>\<^verbatim>\<open>String.prototype.includes\<close>: the needle occurs somewhere in the text.\<close>

fun startsWith :: "string \<Rightarrow> string \<Rightarrow> bool" where
  "startsWith text [] = True"
| "startsWith [] (c # cs) = False"
| "startsWith (t # ts) (c # cs) = (t = c \<and> startsWith ts cs)"

fun includesText :: "string \<Rightarrow> string \<Rightarrow> bool" where
  "includesText [] needle = (needle = [])"
| "includesText (t # ts) needle = (startsWith (t # ts) needle \<or> includesText ts needle)"

section \<open>Audit collector and the remaining audit builders (audit.ts)\<close>

record Stage1Metrics =
  startTime :: int
  endTime :: "int option"
  metricTokens :: "nat option"
  metricConfidence :: "string option"
  metricThresholdIssues :: "nat option"
  metricCitations :: "nat option"
  metricAdversarial :: "bool option"
  metricRetries :: nat
  success :: bool
  metricError :: "string option"

text \<open>
  What happens outside the program while a deliberation runs. A model call either throws
  (with the message of the error) or comes back with an answer.
  \<^item> Stage 1: the parsed JSON of the answer (the validated data, or the raw value when
    validation failed), with the confidence, the key points and the token count read
    from it.
  \<^item> Stage 2: the evaluations, the ranking (\<^term>\<open>None\<close> when validation failed and the
    raw ranking is not an array) and the rationale.
  \<^item> Stage 3: a synthesis that validated, or the partial extraction from one that did
    not.
  The environment also holds the verdict of \<^verbatim>\<open>isAppropriateForCouncil\<close>, whether a
  global variable \<^verbatim>\<open>sessionId\<close> is bound (see \<open>stage1Task\<close> below), the clock
  readings at the start and the end of each Stage-1 call, and the order in which the
  pending calls of Stage 1 and of Stage 2 settle. Progress events and usage accounting
  have no effect on the result and are left out, as are the session id and the wall-clock
  fields of the result.
\<close>

datatype reply1 = Threw1 string | Replied1 json string "string list" "nat option"

datatype reply2 = Threw2 string | Replied2 json "string list option" string

datatype reply3 = Threw3 string | Valid3 Stage3Synthesis | Partial3 Stage3Synthesis

record environment =
  appropriate :: bool
  sessionIdBound :: bool
  rejectionReason :: string
  stage1Reply :: "nat \<Rightarrow> reply1"
  stage2Reply :: "nat \<Rightarrow> reply2"
  stage3Reply :: "string \<Rightarrow> reply3"
  startedAt :: "nat \<Rightarrow> int"
  endedAt :: "nat \<Rightarrow> int"
  settleOrder1 :: "nat list"
  settleOrder2 :: "nat list"

text \<open>A model call that was dispatched; a Stage-2 call carries its user prompt.\<close>

datatype call = Stage1Call string | Stage2Call string string | Stage3Call string

text \<open>
  The state that the tasks of a stage share: the calls dispatched so far, the \<^verbatim>\<open>errors\<close>
  array of the running stage, and the \<^verbatim>\<open>stage1Metrics\<close> map of the audit collector.
\<close>

record session =
  calls :: "call list"
  stageErrors :: "StageError list"
  stage1Metrics :: "(string \<times> Stage1Metrics) list"

definition recordStage1Start :: "string \<Rightarrow> int \<Rightarrow> (string \<times> Stage1Metrics) list \<Rightarrow> (string \<times> Stage1Metrics) list" where
  "recordStage1Start m now ms =
     dictSet m \<lparr>startTime = now, endTime = None, metricTokens = None, metricConfidence = None,
                metricThresholdIssues = None, metricCitations = None, metricAdversarial = None,
                metricRetries = 0, success = False, metricError = None\<rparr> ms"

text \<open>
  \<^verbatim>\<open>recordStage1Complete\<close>. The structured payload of an analysis that Stage 1 built is
  truthy, so the metrics read from it are always set.
\<close>

definition recordStage1Complete ::
    "heuristics \<Rightarrow> string \<Rightarrow> IndividualAnalysis \<Rightarrow> nat option \<Rightarrow> int
     \<Rightarrow> (string \<times> Stage1Metrics) list \<Rightarrow> (string \<times> Stage1Metrics) list" where
  "recordStage1Complete h m analysis tokens now ms =
     (case map_of ms m of
        None \<Rightarrow> ms
      | Some metrics \<Rightarrow>
          dictSet m
            (let metrics1 = metrics\<lparr>endTime := Some now, metricTokens := tokens,
                                     metricConfidence := Some (confidence analysis),
                                     success := True\<rparr>
             in case structured analysis of
                  None \<Rightarrow> metrics1
                | Some s \<Rightarrow>
                    if truthy s
                    then metrics1\<lparr>metricThresholdIssues :=
                                     Some (case getProp s ''thresholdIssues'' of
                                             Some (JArr elements) \<Rightarrow> length elements
                                           | _ \<Rightarrow> 0),
                                   metricAdversarial :=
                                     Some (case getProp s ''adversarialArgument'' of
                                             Some v \<Rightarrow> truthy v
                                           | None \<Rightarrow> False),
                                   metricCitations :=
                                     Some (countCitations h (content analysis))\<rparr>
                    else metrics1)
            ms)"

definition recordStage1Failure :: "string \<Rightarrow> string \<Rightarrow> int \<Rightarrow> (string \<times> Stage1Metrics) list \<Rightarrow> (string \<times> Stage1Metrics) list" where
  "recordStage1Failure m err now ms =
     (case map_of ms m of
        None \<Rightarrow> ms
      | Some metrics \<Rightarrow>
          dictSet m (metrics\<lparr>endTime := Some now, success := False, metricError := Some err\<rparr>) ms)"

text \<open>An integer as a template literal prints it.\<close>

definition showInt :: "int \<Rightarrow> string" where
  "showInt i = (if i < 0 then ''-'' @ digits (nat (- i)) else digits (nat i))"

subsection \<open>buildStage1Audit\<close>

text \<open>\<^verbatim>\<open>metrics.success && metrics.endTime\<close>: the end time is set and not 0.\<close>

definition responded :: "Stage1Metrics \<Rightarrow> bool" where
  "responded metrics \<longleftrightarrow> success metrics \<and> (case endTime metrics of None \<Rightarrow> False | Some t \<Rightarrow> t \<noteq> 0)"

definition latencyOf :: "Stage1Metrics \<Rightarrow> int" where
  "latencyOf metrics = the (endTime metrics) - startTime metrics"

definition modelMetricsOf :: "Stage1Metrics \<Rightarrow> Stage1ModelMetrics" where
  "modelMetricsOf metrics =
     \<lparr>latencyMs = latencyOf metrics,
      tokensUsed = (case metricTokens metrics of None \<Rightarrow> 0 | Some n \<Rightarrow> n),
      confidenceStated = (case metricConfidence metrics of None \<Rightarrow> ''medium'' | Some c \<Rightarrow> c),
      thresholdIssuesIdentified = (case metricThresholdIssues metrics of None \<Rightarrow> 0 | Some n \<Rightarrow> n),
      citationsUsed = (case metricCitations metrics of None \<Rightarrow> 0 | Some n \<Rightarrow> n),
      adversarialArgumentProvided = (case metricAdversarial metrics of None \<Rightarrow> False | Some b \<Rightarrow> b),
      retries = metricRetries metrics\<rparr>"

definition failureAnomaly :: "string \<times> Stage1Metrics \<Rightarrow> AuditAnomaly" where
  "failureAnomaly entry =
     \<lparr>anomalyStage = Stage1, severity = Warning, anomalyType = ModelFailure,
      description = ''Model '' @ fst entry @ '' failed to respond: ''
                      @ (if truthy_str (metricError (snd entry)) then the (metricError (snd entry))
                         else ''Unknown error''),
      affectedModels = Some [fst entry],
      recommendation = Some ''Consider model availability or configuration''\<rparr>"

text \<open>\<^verbatim>\<open>Math.round\<close> of a rational.\<close>

definition mathRound :: "rat \<Rightarrow> int" where
  "mathRound x = \<lfloor>x + 1 / 2\<rfloor>"

definition latencyAnomaly :: "rat \<Rightarrow> string \<times> Stage1Metrics \<Rightarrow> AuditAnomaly" where
  "latencyAnomaly avgLatency entry =
     \<lparr>anomalyStage = Stage1, severity = Info, anomalyType = LatencyOutlier,
      description = ''Model '' @ fst entry @ '' took '' @ showInt (latencyOf (snd entry))
                      @ ''ms (avg: '' @ showInt (mathRound avgLatency) @ ''ms)'',
      affectedModels = Some [fst entry],
      recommendation = None\<rparr>"

definition retryAnomaly :: "string \<times> Stage1Metrics \<Rightarrow> AuditAnomaly" where
  "retryAnomaly entry =
     \<lparr>anomalyStage = Stage1, severity = Warning, anomalyType = RetryExcessive,
      description = ''Model '' @ fst entry @ '' required '' @ digits (metricRetries (snd entry))
                      @ '' retries'',
      affectedModels = Some [fst entry],
      recommendation = Some ''Check model reliability or prompt compatibility''\<rparr>"

definition quorumRiskAnomaly :: AuditAnomaly where
  "quorumRiskAnomaly =
     \<lparr>anomalyStage = Stage1, severity = Warning, anomalyType = QuorumRisk,
      description = ''Bare minimum quorum ('' @ digits MINIMUM_QUORUM
                      @ '') - deliberation quality may be reduced'',
      affectedModels = None,
      recommendation = Some ''Consider adding council members for more robust deliberation''\<rparr>"

definition buildStage1Audit :: "(string \<times> Stage1Metrics) list \<Rightarrow> string list \<Rightarrow> Stage1Audit" where
  "buildStage1Audit ms councilModels =
     (let respondedEntries = filter (\<lambda>e. responded (snd e)) ms;
          failedEntries = filter (\<lambda>e. \<not> responded (snd e)) ms;
          latencies = map (\<lambda>e. latencyOf (snd e)) respondedEntries;
          avgLatency = (of_int (sum_list latencies) :: rat) / of_nat (length latencies);
          outliers = (if length latencies \<ge> 2
                      then filter (\<lambda>e. of_int (latencyOf (snd e)) > avgLatency * 2) respondedEntries
                      else []);
          retried = filter (\<lambda>e. metricRetries (snd e) \<ge> 2) ms
      in \<lparr>modelsQueried = councilModels,
           modelsResponded = map fst respondedEntries,
           modelsFailed = map fst failedEntries,
           perModelMetrics = map (\<lambda>e. (fst e, modelMetricsOf (snd e))) respondedEntries,
           anomalies1 = map failureAnomaly failedEntries
                          @ map (latencyAnomaly avgLatency) outliers
                          @ map retryAnomaly retried
                          @ (if length respondedEntries = MINIMUM_QUORUM then [quorumRiskAnomaly]
                             else [])\<rparr>)"

subsection \<open>detectCrossStageAnomalies\<close>

datatype failure =
    InappropriateQuery string
  | CouncilQuorumError string nat nat "StageError list"
  | TypeError

definition mismatchAnomaly :: "IndividualAnalysis \<Rightarrow> AuditAnomaly" where
  "mismatchAnomaly analysis =
     \<lparr>anomalyStage = CrossStage, severity = Warning, anomalyType = ConfidenceMismatch,
      description = ''Analysis '' @ label analysis
                      @ '' stated \"high\" confidence but was ranked last by peers'',
      affectedModels =
        Some [if truthy_str (modelId analysis) then the (modelId analysis) else label analysis],
      recommendation = Some ''Review analysis for overconfidence or peer misunderstanding''\<rparr>"

definition isMismatch :: "Stage1Result \<Rightarrow> Stage2Result \<Rightarrow> IndividualAnalysis \<Rightarrow> bool" where
  "isMismatch stage1 stage2 analysis \<longleftrightarrow>
     confidence analysis = ''high'' \<and>
     (case find (\<lambda>r. rlabel r = label analysis) (aggregateRankings stage2) of
        None \<Rightarrow> False
      | Some r \<Rightarrow> averageRank r \<ge> of_nat (length (analyses stage1)) - 1 / 2)"

text \<open>
  \<^verbatim>\<open>issue.issue?.toLowerCase() || ''\<close> for one element of \<^verbatim>\<open>thresholdIssues\<close>. Reading
  \<^verbatim>\<open>issue\<close> from \<^verbatim>\<open>null\<close> raises a TypeError, and so does calling \<^verbatim>\<open>toLowerCase\<close> on
  a value that is neither a string nor \<^verbatim>\<open>null\<close> nor \<^verbatim>\<open>undefined\<close>.
\<close>

definition issueKey :: "heuristics \<Rightarrow> json \<Rightarrow> failure + string" where
  "issueKey h issue =
     (case issue of
        JNull \<Rightarrow> Inl TypeError
      | JObj members \<Rightarrow>
          (case getProp (JObj members) ''issue'' of
             None \<Rightarrow> Inr ''''
           | Some JNull \<Rightarrow> Inr ''''
           | Some (JStr s) \<Rightarrow> Inr (lowerCase h s)
           | Some _ \<Rightarrow> Inl TypeError)
      | _ \<Rightarrow> Inr '''')"

text \<open>The threshold issues of an analysis, when they are an array.\<close>

definition thresholdIssuesOf :: "IndividualAnalysis \<Rightarrow> json list" where
  "thresholdIssuesOf a =
     (case structured a of
        None \<Rightarrow> []
      | Some JNull \<Rightarrow> []
      | Some s \<Rightarrow> (case getProp s ''thresholdIssues'' of Some (JArr elements) \<Rightarrow> elements | _ \<Rightarrow> []))"

text \<open>The two nested loops that fill \<^verbatim>\<open>thresholdCounts\<close>; an exception ends them.\<close>

fun countIssues ::
    "heuristics \<Rightarrow> string \<Rightarrow> json list \<Rightarrow> (string \<times> string list) list
     \<Rightarrow> failure + (string \<times> string list) list" where
  "countIssues h l [] counts = Inr counts"
| "countIssues h l (issue # rest) counts =
     (case issueKey h issue of
        Inl e \<Rightarrow> Inl e
      | Inr normalized \<Rightarrow>
          countIssues h l rest
            (case map_of counts normalized of
               None \<Rightarrow> dictSet normalized [l] counts
             | Some ls \<Rightarrow> dictSet normalized (ls @ [l]) counts))"

fun thresholdCounts ::
    "heuristics \<Rightarrow> IndividualAnalysis list \<Rightarrow> (string \<times> string list) list
     \<Rightarrow> failure + (string \<times> string list) list" where
  "thresholdCounts h [] counts = Inr counts"
| "thresholdCounts h (a # as) counts =
     (case countIssues h (label a) (thresholdIssuesOf a) counts of
        Inl e \<Rightarrow> Inl e
      | Inr counts' \<Rightarrow> thresholdCounts h as counts')"

text \<open>\<^verbatim>\<open>missers.join(', ')\<close>\<close>

fun joinComma :: "string list \<Rightarrow> string" where
  "joinComma [] = []"
| "joinComma [x] = x"
| "joinComma (x # y # ys) = x @ '', '' @ joinComma (y # ys)"

definition missersOf :: "Stage1Result \<Rightarrow> string list \<Rightarrow> string list" where
  "missersOf stage1 identifiers =
     map label (filter (\<lambda>a. label a \<notin> set identifiers) (analyses stage1))"

definition gapAnomaly :: "Stage1Result \<Rightarrow> string \<times> string list \<Rightarrow> AuditAnomaly" where
  "gapAnomaly stage1 entry =
     \<lparr>anomalyStage = CrossStage, severity = Warning, anomalyType = ThresholdGap,
      description = ''Threshold issue \"'' @ fst entry @ ''\" identified by ''
                      @ digits (length (snd entry)) @ '' analyses but missed by ''
                      @ joinComma (missersOf stage1 (snd entry)),
      affectedModels = Some (missersOf stage1 (snd entry)),
      recommendation = Some ''Review missed threshold issue for potential blind spot''\<rparr>"

definition detectCrossStageAnomalies ::
    "heuristics \<Rightarrow> Stage1Result \<Rightarrow> Stage2Result \<Rightarrow> failure + AuditAnomaly list" where
  "detectCrossStageAnomalies h stage1 stage2 =
     (case thresholdCounts h (analyses stage1) [] of
        Inl e \<Rightarrow> Inl e
      | Inr counts \<Rightarrow>
          (let majority = (length (analyses stage1) + 1) div 2;
               gaps = filter (\<lambda>entry. length (snd entry) \<ge> majority
                                     \<and> length (missersOf stage1 (snd entry)) > 0) counts
           in Inr (map mismatchAnomaly (filter (isMismatch stage1 stage2) (analyses stage1))
                   @ map (gapAnomaly stage1) gaps)))"

subsection \<open>buildAudit\<close>

record CouncilAudit =
  auditSelection :: "ChairmanSelectionResult option"
  auditStage1 :: Stage1Audit
  auditStage2 :: Stage2Audit
  auditStage3 :: Stage3Audit
  auditCrossStage :: "AuditAnomaly list"
  processIntegrity :: ProcessIntegrity

definition buildAudit ::
    "heuristics \<Rightarrow> (string \<times> Stage1Metrics) list \<Rightarrow> ChairmanSelectionResult option
     \<Rightarrow> Stage1Result \<Rightarrow> Stage2Result \<Rightarrow> Stage3Result \<Rightarrow> string list
     \<Rightarrow> failure + CouncilAudit" where
  "buildAudit h ms selection stage1 stage2 stage3 councilModels =
     (let s1 = buildStage1Audit ms councilModels;
          s2 = buildStage2Audit h stage1 stage2;
          s3 = buildStage3Audit h stage1 stage2 stage3
      in case detectCrossStageAnomalies h stage1 stage2 of
           Inl e \<Rightarrow> Inl e
         | Inr cross \<Rightarrow>
             Inr \<lparr>auditSelection = selection, auditStage1 = s1, auditStage2 = s2,
                  auditStage3 = s3, auditCrossStage = cross,
                  processIntegrity =
                    calculateProcessIntegrity s1 s2 s3 cross (length councilModels)\<rparr>)"

section \<open>Deliberation controller (orchestrator.ts)\<close>

record CouncilConfig =
  councilModels :: "string list"
  chairmanOverrideModel :: "string option"
  minimumSeats :: nat
  concurrencyLimit :: nat

record CouncilMember =
  memberModelId :: string
  sessionLabel :: string

definition DEFAULT_MINIMUM_QUORUM :: nat where
  "DEFAULT_MINIMUM_QUORUM = 2"

text \<open>
  \<^verbatim>\<open>String.fromCharCode(n)\<close>, the string of the one code unit \<open>n mod 65536\<close>. The
  characters of this model are the code units below 256; a code unit above 255 is written
  as two characters, its high byte and its low byte.
\<close>

definition fromCharCode :: "nat \<Rightarrow> string" where
  "fromCharCode n =
     (if n < 256 then [char_of n]
      else if n mod 65536 < 256 then [char_of (n mod 65536)]
      else [char_of (n mod 65536 div 256), char_of (n mod 65536 mod 256)])"

text \<open>\<^verbatim>\<open>String.fromCharCode(65 + index)\<close>: A, B, C, ...\<close>

definition assignLabels :: "string list \<Rightarrow> CouncilMember list" where
  "assignLabels modelIds =
     map (\<lambda>(index, m). \<lparr>memberModelId = m, sessionLabel = fromCharCode (65 + index)\<rparr>)
       (enumerate 0 modelIds)"

subsection \<open>Stage 1\<close>

text \<open>
  What the body of the \<^verbatim>\<open>try\<close> of a Stage-1 task comes to for member \<open>i\<close>: the message
  of the error it throws, or the analysis. A falsy answer is thrown as an error; the
  content of an analysis is its structured payload, serialized.
\<close>

definition stage1Outcome :: "environment \<Rightarrow> nat \<Rightarrow> CouncilMember \<Rightarrow> string + (IndividualAnalysis \<times> nat option)" where
  "stage1Outcome env i member =
     (case stage1Reply env i of
        Threw1 msg \<Rightarrow> Inl msg
      | Replied1 finalJson conf points tokens \<Rightarrow>
          if \<not> truthy finalJson
          then Inl ''Agent failed to produce valid JSON after investigation''
          else Inr (\<lparr>label = sessionLabel member, content = stringify 0 finalJson,
                      confidence = conf, keyPoints = points,
                      modelId = Some (memberModelId member), structured = Some finalJson\<rparr>,
                    tokens))"

definition stage1Failed :: "environment \<Rightarrow> nat \<Rightarrow> CouncilMember \<Rightarrow> string \<Rightarrow> session \<Rightarrow> session" where
  "stage1Failed env i member msg s =
     s\<lparr>stage1Metrics := recordStage1Failure (memberModelId member) msg (endedAt env i) (stage1Metrics s),
       stageErrors := stageErrors s @ [\<lparr>stage = 1, errModelId = Some (memberModelId member),
                                        message = msg, recoverable = True\<rparr>]\<rparr>"

text \<open>
  The task of member \<open>i\<close>. The argument \<^verbatim>\<open>{ sessionId, label }\<close> of the call reads an
  identifier \<^verbatim>\<open>sessionId\<close> that \<^verbatim>\<open>runStage1\<close> does not declare. Where the environment
  binds no such global, reading it raises a ReferenceError inside the \<^verbatim>\<open>try\<close>, before
  the model is called: the task records the failure at once and resolves to \<^verbatim>\<open>null\<close>.
\<close>

definition stage1Task ::
    "heuristics \<Rightarrow> environment \<Rightarrow> nat \<times> CouncilMember \<Rightarrow> (IndividualAnalysis option, session) task" where
  "stage1Task h env = (\<lambda>(i, member).
     if \<not> sessionIdBound env
     then \<lparr>begin_task = (\<lambda>s. stage1Failed env i member ''sessionId is not defined''
                                (s\<lparr>stage1Metrics := recordStage1Start (memberModelId member)
                                                        (startedAt env i) (stage1Metrics s)\<rparr>)),
           finish_task = (\<lambda>s. s),
           outcome = Resolved None\<rparr>
     else \<lparr>begin_task = (\<lambda>s. s\<lparr>stage1Metrics := recordStage1Start (memberModelId member)
                                                      (startedAt env i) (stage1Metrics s),
                                  calls := calls s @ [Stage1Call (memberModelId member)]\<rparr>),
           finish_task = (\<lambda>s. case stage1Outcome env i member of
                                Inl msg \<Rightarrow> stage1Failed env i member msg s
                              | Inr (analysis, tokens) \<Rightarrow>
                                  s\<lparr>stage1Metrics := recordStage1Complete h (memberModelId member)
                                                        analysis tokens (endedAt env i)
                                                        (stage1Metrics s)\<rparr>),
           outcome = Resolved (case stage1Outcome env i member of
                                 Inl msg \<Rightarrow> None
                               | Inr (analysis, tokens) \<Rightarrow> Some analysis)\<rparr>)"

text \<open>The results that are truthy: a slot holds \<^verbatim>\<open>null\<close> or what the task resolved to.\<close>

definition collected :: "'a option option list \<Rightarrow> 'a list" where
  "collected slots = List.map_filter (\<lambda>slot. case slot of Some (Some v) \<Rightarrow> Some v | _ \<Rightarrow> None) slots"

definition runStage1 ::
    "heuristics \<Rightarrow> environment \<Rightarrow> CouncilMember list \<Rightarrow> nat \<Rightarrow> session
     \<Rightarrow> (Stage1Result \<times> session) option" where
  "runStage1 h env members limit s =
     (case withConcurrencyLimit (map (stage1Task h env) (enumerate 0 members)) limit
             (settleOrder1 env) (s\<lparr>stageErrors := []\<rparr>) of
        None \<Rightarrow> None
      | Some (slots, s') \<Rightarrow>
          Some (\<lparr>analyses = collected slots,
                 complete1 = (length (collected slots) = length members),
                 errors1 = stageErrors s'\<rparr>, s'))"

subsection \<open>Stage 2\<close>

definition stage2Outcome :: "environment \<Rightarrow> Stage1Result \<Rightarrow> nat \<Rightarrow> CouncilMember \<Rightarrow> string + PeerReview" where
  "stage2Outcome env stage1 i member =
     (case stage2Reply env i of
        Threw2 msg \<Rightarrow> Inl msg
      | Replied2 evals rankingGiven rationaleGiven \<Rightarrow>
          Inr \<lparr>reviewerLabel = sessionLabel member, evaluations = evals,
               ranking = (case rankingGiven of
                            Some r \<Rightarrow> r
                          | None \<Rightarrow> map label (analyses stage1)),
               rankingRationale = rationaleGiven,
               reviewerModelId = Some (memberModelId member)\<rparr>)"

definition stage2Task ::
    "environment \<Rightarrow> Stage1Result \<Rightarrow> nat \<times> CouncilMember \<Rightarrow> (PeerReview option, session) task" where
  "stage2Task env stage1 = (\<lambda>(i, member).
     \<lparr>begin_task = (\<lambda>s. s\<lparr>calls := calls s @ [Stage2Call (memberModelId member)
                                                   (stage2UserPrompt stage1)]\<rparr>),
      finish_task = (\<lambda>s. case stage2Outcome env stage1 i member of
                           Inl msg \<Rightarrow>
                             s\<lparr>stageErrors := stageErrors s
                                   @ [\<lparr>stage = 2, errModelId = Some (memberModelId member),
                                       message = msg, recoverable = True\<rparr>]\<rparr>
                         | Inr review \<Rightarrow> s),
      outcome = Resolved (case stage2Outcome env stage1 i member of
                            Inl msg \<Rightarrow> None
                          | Inr review \<Rightarrow> Some review)\<rparr>)"

definition runStage2 ::
    "environment \<Rightarrow> Stage1Result \<Rightarrow> CouncilMember list \<Rightarrow> nat \<Rightarrow> session
     \<Rightarrow> (Stage2Result \<times> session) option" where
  "runStage2 env stage1 members limit s =
     (case withConcurrencyLimit (map (stage2Task env stage1) (enumerate 0 members)) limit
             (settleOrder2 env) (s\<lparr>stageErrors := []\<rparr>) of
        None \<Rightarrow> None
      | Some (slots, s') \<Rightarrow>
          Some (\<lparr>peerReviews = collected slots,
                 aggregateRankings = calculateAggregateRankings (collected slots) (analyses stage1),
                 complete2 = (length (collected slots) = length members),
                 errors2 = stageErrors s'\<rparr>, s'))"

subsection \<open>Stage 3\<close>

definition getEmptySynthesis :: "CouncilConfig \<Rightarrow> Stage3Synthesis" where
  "getEmptySynthesis config =
     \<lparr>consensus = \<lparr>reached = False, position = ''Synthesis failed - see errors'',
                    consensusConfidence = 0, agreementCount = 0,
                    totalMembers = of_nat (length (councilModels config))\<rparr>,
      issues = [],
      risk = \<lparr>overallLevel = ''medium'', factors = [], catastrophizingDetected = False,
               understatingDetected = False,
               calibrationNotes = ''Unable to complete risk assessment''\<rparr>,
      dissent = [], weaknesses = [], openQuestions = [], actionItems = [],
      sourceAttribution = None\<rparr>"

text \<open>
  \<^verbatim>\<open>runStage3WithChairman\<close>. Building the ranking summary sorts the aggregate rankings of
  \<open>stage2\<close> in place, so the function also returns the Stage-2 result as it leaves it.
\<close>

definition runStage3WithChairman ::
    "environment \<Rightarrow> CouncilConfig \<Rightarrow> Stage1Result \<Rightarrow> Stage2Result \<Rightarrow> string \<Rightarrow> session
     \<Rightarrow> Stage3Result \<times> Stage2Result \<times> session" where
  "runStage3WithChairman env config stage1 stage2 chairman s =
     (let stage2' = stage2\<lparr>aggregateRankings := sort_key averageRank (aggregateRankings stage2)\<rparr>;
          s' = s\<lparr>calls := calls s @ [Stage3Call chairman]\<rparr>
      in (case stage3Reply env chairman of
            Valid3 syn \<Rightarrow>
              \<lparr>synthesis = syn, chairmanModel = chairman, complete3 = True, errors3 = []\<rparr>
          | Partial3 syn \<Rightarrow>
              \<lparr>synthesis = syn, chairmanModel = chairman, complete3 = True,
               errors3 = [\<lparr>stage = 3, errModelId = None,
                            message = ''Chairman response did not fully validate, using partial extraction'',
                            recoverable = True\<rparr>]\<rparr>
          | Threw3 msg \<Rightarrow>
              \<lparr>synthesis = getEmptySynthesis config, chairmanModel = chairman, complete3 = False,
               errors3 = [\<lparr>stage = 3, errModelId = Some chairman, message = msg,
                            recoverable = False\<rparr>]\<rparr>,
          stage2', s'))"

subsection \<open>deliberate\<close>

record CouncilDeliberation =
  finalConsensus :: ConsensusResult
  issuesIdentified :: "json list"
  riskAssessment :: CalibratedRisk
  finalDissent :: "json list"
  weaknessesFound :: "json list"
  finalOpenQuestions :: "string list"
  finalActionItems :: "json list"
  stageResults1 :: Stage1Result
  stageResults2 :: Stage2Result
  stageResults3 :: Stage3Result
  participatingModels :: "string list"
  metadataChairmanModel :: string
  audit :: CouncilAudit

definition constructDeliberation ::
    "Stage1Result \<Rightarrow> Stage2Result \<Rightarrow> Stage3Result \<Rightarrow> CouncilMember list \<Rightarrow> CouncilAudit
     \<Rightarrow> CouncilDeliberation" where
  "constructDeliberation stage1 stage2 stage3 members auditTrail =
     \<lparr>finalConsensus = consensus (synthesis stage3),
      issuesIdentified = issues (synthesis stage3),
      riskAssessment = risk (synthesis stage3),
      finalDissent = dissent (synthesis stage3),
      weaknessesFound = weaknesses (synthesis stage3),
      finalOpenQuestions = openQuestions (synthesis stage3),
      finalActionItems = actionItems (synthesis stage3),
      stageResults1 = stage1, stageResults2 = stage2, stageResults3 = stage3,
      participatingModels =
        map memberModelId
          (filter (\<lambda>m. list_ex (\<lambda>a. modelId a = Some (memberModelId m)) (analyses stage1)) members),
      metadataChairmanModel = chairmanModel stage3,
      audit = auditTrail\<rparr>"

definition quorumMessage1 :: "nat \<Rightarrow> nat \<Rightarrow> nat \<Rightarrow> string" where
  "quorumMessage1 actual members minQuorum =
     ''Council failed to reach quorum. Only '' @ digits actual @ '' of '' @ digits members
       @ '' members responded. Minimum required: '' @ digits minQuorum"

definition quorumMessage2 :: "nat \<Rightarrow> nat \<Rightarrow> string" where
  "quorumMessage2 actual minQuorum =
     ''Peer review failed to reach quorum. Only '' @ digits actual
       @ '' reviews completed. Minimum required: '' @ digits minQuorum"

text \<open>\<^verbatim>\<open>this.config.minimumSeats || DEFAULT_MINIMUM_QUORUM\<close>\<close>

definition minQuorumOf :: "CouncilConfig \<Rightarrow> nat" where
  "minQuorumOf config =
     (if minimumSeats config = 0 then DEFAULT_MINIMUM_QUORUM else minimumSeats config)"

text \<open>
  The part of \<^verbatim>\<open>deliberate\<close> after the second quorum check: chairman selection, Stage 3,
  the audit and the result object.
\<close>

definition concludeDeliberation ::
    "heuristics \<Rightarrow> environment \<Rightarrow> CouncilConfig \<Rightarrow> CouncilMember list \<Rightarrow> Stage1Result
     \<Rightarrow> Stage2Result \<Rightarrow> session \<Rightarrow> (failure + CouncilDeliberation) \<times> session" where
  "concludeDeliberation h env config members stage1 stage2 s =
     (let selection = selectChairman stage1 stage2 (chairmanOverrideModel config)
      in case runStage3WithChairman env config stage1 stage2 (model selection) s of
           (stage3, stage2', s') \<Rightarrow>
             (case buildAudit h (stage1Metrics s') (Some selection) stage1 stage2' stage3
                     (councilModels config) of
                Inl e \<Rightarrow> (Inl e, s')
              | Inr auditTrail \<Rightarrow>
                  (Inr (constructDeliberation stage1 stage2' stage3 members auditTrail), s')))"

text \<open>
  \<^verbatim>\<open>deliberate\<close>: the value it returns or the error it throws, with the final state of
  the session; \<^term>\<open>None\<close> while a stage is still waiting for a call to settle.
\<close>

definition deliberate ::
    "heuristics \<Rightarrow> environment \<Rightarrow> CouncilConfig
     \<Rightarrow> ((failure + CouncilDeliberation) \<times> session) option" where
  "deliberate h env config =
     (let s0 = \<lparr>calls = [], stageErrors = [], stage1Metrics = []\<rparr>;
          members = assignLabels (councilModels config);
          minQuorum = minQuorumOf config
      in if \<not> appropriate env then Some (Inl (InappropriateQuery (rejectionReason env)), s0)
         else
           (case runStage1 h env members (concurrencyLimit config) s0 of
              None \<Rightarrow> None
            | Some (stage1, s1) \<Rightarrow>
                if length (analyses stage1) < minQuorum
                then Some (Inl (CouncilQuorumError
                                  (quorumMessage1 (length (analyses stage1)) (length members) minQuorum)
                                  (length (analyses stage1)) minQuorum (errors1 stage1)), s1)
                else
                  (case runStage2 env stage1 members (concurrencyLimit config) s1 of
                     None \<Rightarrow> None
                   | Some (stage2, s2) \<Rightarrow>
                       if length (peerReviews stage2) < minQuorum
                       then Some (Inl (CouncilQuorumError
                                         (quorumMessage2 (length (peerReviews stage2)) minQuorum)
                                         (length (peerReviews stage2)) minQuorum (errors2 stage2)), s2)
                       else Some (concludeDeliberation h env config members stage1 stage2 s2))))"

text \<open>
  Examples for the review payload: a council member whose model id is the word
  \<open>model\<close>, and the same analysis with the model id removed.
\<close>

definition c6_analysis :: "string option \<Rightarrow> IndividualAnalysis" where
  "c6_analysis m =
     \<lparr>label = ''A'', content = ''The claim is timely.'', confidence = ''medium'', keyPoints = [],
      modelId = m, structured = None\<rparr>"

definition c6_stage1 :: "string option \<Rightarrow> Stage1Result" where
  "c6_stage1 m = \<lparr>analyses = [c6_analysis m], complete1 = True, errors1 = []\<rparr>"

text \<open>The data of an analysis that the review payload reads.\<close>

definition reviewData :: "IndividualAnalysis \<Rightarrow> string \<times> string \<times> json option" where
  "reviewData a = (label a, content a, structured a)"

text \<open>
  An environment for the examples: the query is appropriate, no global \<^verbatim>\<open>sessionId\<close>
  is bound (nothing in the repository binds one), the Stage-1 calls and the chairman
  call would answer as given, every review leaves the ranking to the default, and the
  calls settle in the order in which they were started.
\<close>

definition scenario :: "(nat \<Rightarrow> reply1) \<Rightarrow> reply3 \<Rightarrow> environment" where
  "scenario answers chairmanAnswer =
     \<lparr>appropriate = True, sessionIdBound = False, rejectionReason = [],
      stage1Reply = answers,
      stage2Reply = (\<lambda>i. Replied2 (JObj []) None ''Rationale not provided''),
      stage3Reply = (\<lambda>m. chairmanAnswer),
      startedAt = (\<lambda>i. 1000), endedAt = (\<lambda>i. 2000 + int i),
      settleOrder1 = replicate 6 0, settleOrder2 = replicate 6 0\<rparr>"

definition emptySession :: session where
  "emptySession = \<lparr>calls = [], stageErrors = [], stage1Metrics = []\<rparr>"


text \<open>
  Examples for the audit. An analysis and a review as the stages build them, and the
  state of the audit collector after the given models were started at time 1000, the
  models of the analyses completed and the other models failed with a timeout.
\<close>

definition exampleJson :: json where
  "exampleJson = JObj [(''assessment'', JStr ''liable''), (''confidence'', JStr ''medium'')]"











text \<open>
  A threshold issue that the audit can read: any JSON value but \<^verbatim>\<open>null\<close>, and, for an
  object, one whose \<^verbatim>\<open>issue\<close> is a string, \<^verbatim>\<open>null\<close> or absent.
\<close>

definition readableIssue :: "json \<Rightarrow> bool" where
  "readableIssue j \<longleftrightarrow>
     (case j of
        JNull \<Rightarrow> False
      | JObj members \<Rightarrow>
          (case getProp (JObj members) ''issue'' of
             None \<Rightarrow> True
           | Some JNull \<Rightarrow> True
           | Some (JStr s) \<Rightarrow> True
           | Some _ \<Rightarrow> False)
      | _ \<Rightarrow> True)"

text \<open>The Stage-3 result of a chairman call that threw the given message.\<close>

definition failedStage3 :: "CouncilConfig \<Rightarrow> string \<Rightarrow> string \<Rightarrow> Stage3Result" where
  "failedStage3 config chairman msg =
     \<lparr>synthesis = getEmptySynthesis config, chairmanModel = chairman, complete3 = False,
      errors3 = [\<lparr>stage = 3, errModelId = Some chairman, message = msg, recoverable = False\<rparr>]\<rparr>"

text \<open>
  What the stages come to for a council, whatever the order in which the calls settle:
  the message with which the Stage-1 task of member \<open>i\<close> fails (if it does), the Stage-1
  analyses and the error entries of the failed members in the order of the members, and
  the same for Stage 2.
\<close>

definition stage1Failure :: "environment \<Rightarrow> nat \<Rightarrow> CouncilMember \<Rightarrow> string option" where
  "stage1Failure env i member =
     (if \<not> sessionIdBound env then Some ''sessionId is not defined''
      else case stage1Outcome env i member of Inl msg \<Rightarrow> Some msg | Inr r \<Rightarrow> None)"

definition stage1Error :: "CouncilMember \<Rightarrow> string \<Rightarrow> StageError" where
  "stage1Error member msg =
     \<lparr>stage = 1, errModelId = Some (memberModelId member), message = msg, recoverable = True\<rparr>"

definition successfulAnalyses :: "environment \<Rightarrow> CouncilMember list \<Rightarrow> IndividualAnalysis list" where
  "successfulAnalyses env members =
     List.map_filter
       (\<lambda>(i, member). if \<not> sessionIdBound env then None
                        else case stage1Outcome env i member of
                               Inl msg \<Rightarrow> None
                             | Inr (analysis, tokens) \<Rightarrow> Some analysis)
       (enumerate 0 members)"

definition expectedErrors1 :: "environment \<Rightarrow> CouncilMember list \<Rightarrow> StageError list" where
  "expectedErrors1 env members =
     List.map_filter (\<lambda>(i, member). map_option (stage1Error member) (stage1Failure env i member))
       (enumerate 0 members)"

definition stage2Error :: "CouncilMember \<Rightarrow> string \<Rightarrow> StageError" where
  "stage2Error member msg =
     \<lparr>stage = 2, errModelId = Some (memberModelId member), message = msg, recoverable = True\<rparr>"

definition completedReviews :: "environment \<Rightarrow> Stage1Result \<Rightarrow> CouncilMember list \<Rightarrow> PeerReview list" where
  "completedReviews env stage1 members =
     List.map_filter
       (\<lambda>(i, member). case stage2Outcome env stage1 i member of
                          Inl msg \<Rightarrow> None
                        | Inr review \<Rightarrow> Some review)
       (enumerate 0 members)"

definition expectedErrors2 :: "environment \<Rightarrow> Stage1Result \<Rightarrow> CouncilMember list \<Rightarrow> StageError list" where
  "expectedErrors2 env stage1 members =
     List.map_filter
       (\<lambda>(i, member). case stage2Outcome env stage1 i member of
                          Inl msg \<Rightarrow> Some (stage2Error member msg)
                        | Inr review \<Rightarrow> None)
       (enumerate 0 members)"

text \<open>
  The example of the quorum gate: a council of three models with a minimum of two
  seats, in the example environment.
\<close>

definition gate_config :: CouncilConfig where
  "gate_config =
     \<lparr>councilModels = [''m1'', ''m2'', ''m3''], chairmanOverrideModel = None,
      minimumSeats = 2, concurrencyLimit = 3\<rparr>"

definition gate_env :: environment where
  "gate_env = scenario (\<lambda>i. Replied1 exampleJson ''medium'' [] (Some 100)) (Valid3 (synthesisWith []))"

definition gate_errors :: "StageError list" where
  "gate_errors =
     map (\<lambda>m. \<lparr>stage = 1, errModelId = Some m, message = ''sessionId is not defined'',
                 recoverable = True\<rparr>) [''m1'', ''m2'', ''m3'']"

section \<open>Aggregate rankings: correctness\<close>

lemma indexOf_None: "indexOf ys x = None \<longleftrightarrow> x \<notin> set ys"
  by (induction ys) auto

lemma indexOf_Some:
  "indexOf ys x = Some p \<Longrightarrow> x \<in> set ys \<and> p = length (takeWhile (\<lambda>y. y \<noteq> x) ys)"
  by (induction ys arbitrary: p) (auto split: if_splits)

lemma collectPositions_spec: "collectPositions reviews l = specPositions reviews l"
proof (induction reviews)
  case Nil
  show ?case by (simp add: specPositions_def)
next
  case (Cons r rs)
  show ?case
  proof (cases "indexOf (ranking r) l")
    case None
    then have "l \<notin> set (ranking r)" by (simp add: indexOf_None)
    with None Cons show ?thesis by (simp add: specPositions_def)
  next
    case (Some p)
    from indexOf_Some[OF Some] Some Cons show ?thesis by (simp add: specPositions_def)
  qed
qed

lemma collectPositions_empty: "collectPositions reviews l = [] \<longleftrightarrow> \<not> reviewed reviews l"
  by (induction reviews)
     (auto simp: reviewed_def indexOf_None dest: indexOf_Some split: option.splits)

lemma unsortedRankings_map:
  "unsortedRankings n reviews as =
     map (\<lambda>l. rankingEntry n l (collectPositions reviews l))
       (filter (reviewed reviews) (map label as))"
  by (induction as) (auto simp: Let_def collectPositions_empty)

lemma rlabel_rankingEntry: "rlabel (rankingEntry n l ps) = l"
  by (simp add: rankingEntry_def Let_def)

lemma averageRank_rankingEntry: "averageRank (rankingEntry n l ps) = avgRank ps"
  by (simp add: rankingEntry_def Let_def)

lemma consistency_rankingEntry:
  "rankingConsistency (rankingEntry n l ps) =
     (case claimedConsistency (rankVariance ps) n of None \<Rightarrow> 1 | Some c \<Rightarrow> c)"
  by (auto simp: rankingEntry_def claimedConsistency_def Let_def)

lemma p4_rankings:
  "calculateAggregateRankings p4_reviews p4_analyses =
     [\<lparr>rlabel = ''A'', averageRank = 4 / 3, rankingConsistency = 17 / 18\<rparr>,
      \<lparr>rlabel = ''B'', averageRank = 5 / 3, rankingConsistency = 17 / 18\<rparr>,
      \<lparr>rlabel = ''C'', averageRank = 3, rankingConsistency = 1\<rparr>]"
  by (simp add: calculateAggregateRankings_def p4_reviews_def p4_analyses_def p4_review_def
        p4_analysis_def rankingEntry_def avgRank_def rankVariance_def power2_eq_square)

text \<open>
  Claim C2, as amended. For all peer reviews and analyses, every entry that
  \<open>calculateAggregateRankings\<close> returns carries, for its label, the mean of the label's
  1-indexed positions over exactly the reviews whose ranking contains it, and a
  consistency equal to \<open>1 - variance / (N - 1)\<^sup>2\<close> clamped below at 0 where that
  formula has a value, and equal to 1 where it has none (a single analysis, \<open>N = 1\<close>).
  The result holds one entry for every analysis whose label some review ranks and none for
  the others, and it is sorted ascending by average rank. For the three reviewers of
  P4 the average ranks are 4/3, 5/3 and 3, the consistency of C is 1, and the
  consistencies of A and B are 1 minus their variance (2/9) over 4.
\<close>

theorem aggregate_rankings_correct:
  "(\<forall>e \<in> set (calculateAggregateRankings reviews as).
      averageRank e = avgRank (specPositions reviews (rlabel e)) \<and>
      rankingConsistency e =
        (case claimedConsistency (rankVariance (specPositions reviews (rlabel e))) (length as) of
           None \<Rightarrow> 1
         | Some c \<Rightarrow> c))
   \<and> mset (map rlabel (calculateAggregateRankings reviews as)) =
       mset (filter (reviewed reviews) (map label as))
   \<and> sorted (map averageRank (calculateAggregateRankings reviews as))
   \<and> map (\<lambda>e. (rlabel e, averageRank e, rankingConsistency e))
         (calculateAggregateRankings p4_reviews p4_analyses) =
       [(''A'', 4 / 3, 1 - (2 / 9) / 4), (''B'', 5 / 3, 1 - (2 / 9) / 4), (''C'', 3, 1)]"
proof (intro conjI ballI)
  fix e assume "e \<in> set (calculateAggregateRankings reviews as)"
  then obtain l where e: "e = rankingEntry (length as) l (collectPositions reviews l)"
    by (auto simp: calculateAggregateRankings_def unsortedRankings_map)
  show "averageRank e = avgRank (specPositions reviews (rlabel e))"
    by (simp add: e rlabel_rankingEntry averageRank_rankingEntry collectPositions_spec)
  show "rankingConsistency e =
        (case claimedConsistency (rankVariance (specPositions reviews (rlabel e))) (length as) of
           None \<Rightarrow> 1
         | Some c \<Rightarrow> c)"
    by (simp add: e rlabel_rankingEntry consistency_rankingEntry collectPositions_spec)
next
  have "mset (map rlabel (calculateAggregateRankings reviews as))
        = mset (map rlabel (unsortedRankings (length as) reviews as))"
    by (simp add: calculateAggregateRankings_def)
  also have "\<dots> = mset (filter (reviewed reviews) (map label as))"
    by (simp add: unsortedRankings_map rlabel_rankingEntry comp_def)
  finally show "mset (map rlabel (calculateAggregateRankings reviews as)) =
       mset (filter (reviewed reviews) (map label as))" .
next
  show "sorted (map averageRank (calculateAggregateRankings reviews as))"
    by (simp add: calculateAggregateRankings_def)
next
  show "map (\<lambda>e. (rlabel e, averageRank e, rankingConsistency e))
         (calculateAggregateRankings p4_reviews p4_analyses) =
       [(''A'', 4 / 3, 1 - (2 / 9) / 4), (''B'', 5 / 3, 1 - (2 / 9) / 4), (''C'', 3, 1)]"
    by (simp add: p4_rankings)
qed

text \<open>
  The theorem at the example of P4, for the entry of label A, which is the first of the
  result.
\<close>

theorem aggregate_rankings_correct_witness:
  "hd (calculateAggregateRankings p4_reviews p4_analyses)
     = \<lparr>rlabel = ''A'', averageRank = 4 / 3, rankingConsistency = 17 / 18\<rparr>
   \<and> averageRank (hd (calculateAggregateRankings p4_reviews p4_analyses))
     = avgRank (specPositions p4_reviews
         (rlabel (hd (calculateAggregateRankings p4_reviews p4_analyses))))
   \<and> rankingConsistency (hd (calculateAggregateRankings p4_reviews p4_analyses))
     = (case claimedConsistency
              (rankVariance (specPositions p4_reviews
                 (rlabel (hd (calculateAggregateRankings p4_reviews p4_analyses)))))
              (length p4_analyses) of
          None \<Rightarrow> 1
        | Some c \<Rightarrow> c)"
proof -
  have "hd (calculateAggregateRankings p4_reviews p4_analyses)
          \<in> set (calculateAggregateRankings p4_reviews p4_analyses)"
    by (simp add: p4_rankings)
  moreover have "hd (calculateAggregateRankings p4_reviews p4_analyses)
     = \<lparr>rlabel = ''A'', averageRank = 4 / 3, rankingConsistency = 17 / 18\<rparr>"
    by (simp add: p4_rankings)
  ultimately show ?thesis
    using aggregate_rankings_correct [of p4_reviews p4_analyses] by blast
qed

text \<open>
  Claim C2 as it is written fails for a single analysis (\<open>N = 1\<close>). Two reviewers rank
  the only analysis A second and first; the variance of its positions is 1/4 and
  \<open>(N - 1)\<^sup>2\<close> is 0, so the written formula has no value (evaluated in floating point,
  \<open>1 - 0.25 / 0\<close> clamped at 0 gives 0), while the code, which guards the division,
  returns 1.
\<close>

theorem aggregate_rankings_counterexample:
  "map (\<lambda>e. Some (rankingConsistency e))
       (calculateAggregateRankings
          [p4_review ''A'' [''X'', ''A''], p4_review ''B'' [''A'']] [p4_analysis ''A'' ''m1''])
     = [Some 1]
   \<and> map (\<lambda>e. claimedConsistency
                (rankVariance (specPositions
                   [p4_review ''A'' [''X'', ''A''], p4_review ''B'' [''A'']] (rlabel e)))
                (length [p4_analysis ''A'' ''m1'']))
       (calculateAggregateRankings
          [p4_review ''A'' [''X'', ''A''], p4_review ''B'' [''A'']] [p4_analysis ''A'' ''m1''])
     = [None]
   \<and> rankVariance (specPositions [p4_review ''A'' [''X'', ''A''], p4_review ''B'' [''A'']] ''A'')
     = 1 / 4"
  by (simp add: calculateAggregateRankings_def p4_review_def p4_analysis_def rankingEntry_def
        avgRank_def rankVariance_def specPositions_def claimedConsistency_def power2_eq_square)

section \<open>Chairman selection: precedence\<close>

lemma overrideApplies_iff:
  "overrideApplies stage1 userOverride \<longleftrightarrow>
     truthy_str userOverride \<and> participated stage1 (the userOverride)"
  by (cases userOverride) (auto simp: overrideApplies_def participated_def list_ex_iff)

lemma fallbackSelection_eq:
  "fallbackSelection stage1 =
     \<lparr>model = firstResponderModel stage1, selectionMethod = Fallback,
      rationale = ''Fallback to first responding model (ranking data unavailable)'',
      alternativesConsidered = None\<rparr>"
  by (auto simp: fallbackSelection_def firstResponderModel_def split: list.splits option.splits)

lemma selectChairman_no_top:
  assumes "\<not> overrideApplies stage1 userOverride" and "topRankedModel stage1 stage2 = None"
  shows "selectChairman stage1 stage2 userOverride = fallbackSelection stage1"
  using assms unfolding selectChairman_def overrideApplies_iff[symmetric]
  by (auto simp: topRankedModel_def findAnalysis_def split: list.splits option.splits if_splits)

lemma toFixed2_four_thirds: "toFixed2 (4 / 3) = ''1.33''"
  by code_simp

text \<open>
  Claim C3, as amended. \<open>selectChairman\<close> is a function of its three arguments and obeys
  this precedence for every input. (1) If the override is a non-empty model id that
  produced some Stage-1 analysis, the result is that model with method
  \<open>user-specified\<close>. (2) Otherwise, if the aggregate rankings are not empty and the
  first-listed ranking's label belongs to a Stage-1 analysis with a non-empty model id,
  the result is that model with method \<open>algorithmic\<close>, a rationale that contains the
  first-listed average rank printed with two decimals, and as alternatives the first
  three rankings at most, each with its average rank. (3) Otherwise the result has method
  \<open>fallback\<close> and the first responder's model (the sentinel \<open>unknown\<close> when there is
  none). The first-listed ranking has the lowest average rank whenever the list is sorted
  ascending, as \<open>calculateAggregateRankings\<close> returns it. An override that did not
  participate falls through to (2) and (3); no path raises an error.
\<close>

theorem selectChairman_precedence:
  "(overrideApplies stage1 userOverride \<longrightarrow>
      selectChairman stage1 stage2 userOverride =
        \<lparr>model = the userOverride, selectionMethod = UserSpecified,
         rationale = ''User specified chairman'', alternativesConsidered = None\<rparr>)
   \<and> (\<not> overrideApplies stage1 userOverride \<longrightarrow>
        (\<forall>m. topRankedModel stage1 stage2 = Some m \<longrightarrow>
           selectChairman stage1 stage2 userOverride =
             \<lparr>model = m, selectionMethod = Algorithmic,
              rationale = ''Highest peer-ranked analysis (avg rank ''
                            @ toFixed2 (averageRank (hd (aggregateRankings stage2))) @ '')'',
              alternativesConsidered =
                Some (map (alternativeOf stage1) (take 3 (aggregateRankings stage2)))\<rparr>)
        \<and> (topRankedModel stage1 stage2 = None \<longrightarrow>
             selectChairman stage1 stage2 userOverride =
               \<lparr>model = firstResponderModel stage1, selectionMethod = Fallback,
                rationale = ''Fallback to first responding model (ranking data unavailable)'',
                alternativesConsidered = None\<rparr>))
   \<and> (sorted (map averageRank (aggregateRankings stage2)) \<longrightarrow>
        (\<forall>r \<in> set (aggregateRankings stage2).
           averageRank (hd (aggregateRankings stage2)) \<le> averageRank r))"
proof (intro conjI impI allI ballI)
  assume "overrideApplies stage1 userOverride"
  then show "selectChairman stage1 stage2 userOverride =
        \<lparr>model = the userOverride, selectionMethod = UserSpecified,
         rationale = ''User specified chairman'', alternativesConsidered = None\<rparr>"
    by (simp add: selectChairman_def overrideApplies_iff)
next
  fix m
  assume no: "\<not> overrideApplies stage1 userOverride"
    and top: "topRankedModel stage1 stage2 = Some m"
  from top obtain t rest a where
    r: "aggregateRankings stage2 = t # rest" and
    f: "findAnalysis stage1 (rlabel t) = Some a" and
    i: "modelId a = Some m" "m \<noteq> []"
    by (auto simp: topRankedModel_def findAnalysis_def
          split: list.splits option.splits if_splits)
  have "min 3 (length (aggregateRankings stage2)) = 3
        \<or> min 3 (length (aggregateRankings stage2)) = length (aggregateRankings stage2)"
    by linarith
  then have tk: "take (min 3 (length (aggregateRankings stage2))) (aggregateRankings stage2)
                 = take 3 (aggregateRankings stage2)"
    by auto
  from no r f i show "selectChairman stage1 stage2 userOverride =
             \<lparr>model = m, selectionMethod = Algorithmic,
              rationale = ''Highest peer-ranked analysis (avg rank ''
                            @ toFixed2 (averageRank (hd (aggregateRankings stage2))) @ '')'',
              alternativesConsidered =
                Some (map (alternativeOf stage1) (take 3 (aggregateRankings stage2)))\<rparr>"
    unfolding selectChairman_def overrideApplies_iff[symmetric] tk by simp
next
  assume "\<not> overrideApplies stage1 userOverride" and "topRankedModel stage1 stage2 = None"
  then show "selectChairman stage1 stage2 userOverride =
               \<lparr>model = firstResponderModel stage1, selectionMethod = Fallback,
                rationale = ''Fallback to first responding model (ranking data unavailable)'',
                alternativesConsidered = None\<rparr>"
    by (simp add: selectChairman_no_top fallbackSelection_eq)
next
  fix r
  assume "sorted (map averageRank (aggregateRankings stage2))"
    and "r \<in> set (aggregateRankings stage2)"
  then show "averageRank (hd (aggregateRankings stage2)) \<le> averageRank r"
    by (cases "aggregateRankings stage2") auto
qed

text \<open>
  The three branches at the P4 example: the override \<open>m2\<close> took part and is selected; the
  override \<open>m9\<close> did not, and the author of the top-ranked analysis A is selected with
  the rationale "avg rank 1.33"; without rankings the first responder is selected.
\<close>

theorem selectChairman_precedence_witness:
  "selectChairman p4_stage1 p4_stage2 (Some ''m2'') =
     \<lparr>model = ''m2'', selectionMethod = UserSpecified,
      rationale = ''User specified chairman'', alternativesConsidered = None\<rparr>
   \<and> selectChairman p4_stage1 p4_stage2 (Some ''m9'') =
     \<lparr>model = ''m1'', selectionMethod = Algorithmic,
      rationale = ''Highest peer-ranked analysis (avg rank 1.33)'',
      alternativesConsidered =
        Some [\<lparr>altModel = ''m1'', altAverageRank = 4 / 3\<rparr>,
              \<lparr>altModel = ''m2'', altAverageRank = 5 / 3\<rparr>,
              \<lparr>altModel = ''m3'', altAverageRank = 3\<rparr>]\<rparr>
   \<and> selectChairman p4_stage1 (p4_stage2\<lparr>aggregateRankings := []\<rparr>) None =
     \<lparr>model = ''m1'', selectionMethod = Fallback,
      rationale = ''Fallback to first responding model (ranking data unavailable)'',
      alternativesConsidered = None\<rparr>
   \<and> averageRank (hd (aggregateRankings p4_stage2)) = 4 / 3"
proof -
  have h1: "overrideApplies p4_stage1 (Some ''m2'')"
    by (simp add: overrideApplies_def p4_stage1_def p4_analyses_def p4_analysis_def)
  have h2: "\<not> overrideApplies p4_stage1 (Some ''m9'')"
    by (simp add: overrideApplies_def p4_stage1_def p4_analyses_def p4_analysis_def)
  have h4: "\<not> overrideApplies p4_stage1 None"
    by (simp add: overrideApplies_def)
  have h5: "topRankedModel p4_stage1 (p4_stage2\<lparr>aggregateRankings := []\<rparr>) = None"
    by (simp add: topRankedModel_def)
  have r: "aggregateRankings p4_stage2 =
     [\<lparr>rlabel = ''A'', averageRank = 4 / 3, rankingConsistency = 17 / 18\<rparr>,
      \<lparr>rlabel = ''B'', averageRank = 5 / 3, rankingConsistency = 17 / 18\<rparr>,
      \<lparr>rlabel = ''C'', averageRank = 3, rankingConsistency = 1\<rparr>]"
    by (simp add: p4_stage2_def p4_rankings)
  have h3: "topRankedModel p4_stage1 p4_stage2 = Some ''m1''"
    by (simp add: topRankedModel_def r p4_stage1_def p4_analyses_def p4_analysis_def)
  have alts: "map (alternativeOf p4_stage1) (take 3 (aggregateRankings p4_stage2)) =
       [\<lparr>altModel = ''m1'', altAverageRank = 4 / 3\<rparr>,
        \<lparr>altModel = ''m2'', altAverageRank = 5 / 3\<rparr>,
        \<lparr>altModel = ''m3'', altAverageRank = 3\<rparr>]"
    by (simp add: r alternativeOf_def findAnalysis_def p4_stage1_def p4_analyses_def
          p4_analysis_def)
  have f: "firstResponderModel p4_stage1 = ''m1''"
    by (simp add: firstResponderModel_def p4_stage1_def p4_analyses_def p4_analysis_def)
  have c1: "selectChairman p4_stage1 p4_stage2 (Some ''m2'') =
     \<lparr>model = ''m2'', selectionMethod = UserSpecified,
      rationale = ''User specified chairman'', alternativesConsidered = None\<rparr>"
    using selectChairman_precedence [of p4_stage1 "Some ''m2''" p4_stage2] h1 by simp
  have c2: "selectChairman p4_stage1 p4_stage2 (Some ''m9'') =
     \<lparr>model = ''m1'', selectionMethod = Algorithmic,
      rationale = ''Highest peer-ranked analysis (avg rank ''
                    @ toFixed2 (averageRank (hd (aggregateRankings p4_stage2))) @ '')'',
      alternativesConsidered =
        Some (map (alternativeOf p4_stage1) (take 3 (aggregateRankings p4_stage2)))\<rparr>"
    using selectChairman_precedence [of p4_stage1 "Some ''m9''" p4_stage2] h2 h3 by blast
  have c3: "selectChairman p4_stage1 (p4_stage2\<lparr>aggregateRankings := []\<rparr>) None =
     \<lparr>model = firstResponderModel p4_stage1, selectionMethod = Fallback,
      rationale = ''Fallback to first responding model (ranking data unavailable)'',
      alternativesConsidered = None\<rparr>"
    using selectChairman_precedence
            [of p4_stage1 None "p4_stage2\<lparr>aggregateRankings := []\<rparr>"] h4 h5
    by blast
  have c4: "averageRank (hd (aggregateRankings p4_stage2)) = 4 / 3"
    by (simp add: r)
  show ?thesis
    unfolding c1 c3 f using c2 alts c4 by (simp add: toFixed2_four_thirds)
qed

text \<open>
  Claim C3 as it is written fails in its second branch. With rankings that are not empty
  but whose first label \<open>Z\<close> belongs to no analysis the code falls back to the first
  responder instead of selecting algorithmically; and with rankings that are not sorted
  (B with average 2 before A with average 1) it selects the author of the first-listed
  label B, not of the label with the lowest average rank.
\<close>

theorem selectChairman_precedence_counterexample:
  "selectChairman p4_stage1
       (p4_stage2\<lparr>aggregateRankings := [\<lparr>rlabel = ''Z'', averageRank = 1, rankingConsistency = 1\<rparr>]\<rparr>)
       None
     = \<lparr>model = ''m1'', selectionMethod = Fallback,
        rationale = ''Fallback to first responding model (ranking data unavailable)'',
        alternativesConsidered = None\<rparr>
   \<and> model (selectChairman p4_stage1
        (p4_stage2\<lparr>aggregateRankings :=
           [\<lparr>rlabel = ''B'', averageRank = 2, rankingConsistency = 1\<rparr>,
            \<lparr>rlabel = ''A'', averageRank = 1, rankingConsistency = 1\<rparr>]\<rparr>)
        None)
     = ''m2''"
  by (simp add: selectChairman_def fallbackSelection_def findAnalysis_def participated_def
        p4_stage1_def p4_analyses_def p4_analysis_def)

text \<open>
  Claim C10, as amended. \<open>selectChairman\<close> is a total function whose result type has no
  error value: no path of the source raises. For every input where the override is
  absent, empty or did not participate and the aggregate rankings are empty, the method
  is \<open>fallback\<close> and the model is the first Stage-1 analysis's model id when that id is
  present and not empty, and the sentinel \<open>unknown\<close> otherwise. When there is no Stage-1
  analysis at all, the method is \<open>fallback\<close> and the model is \<open>unknown\<close>, whatever the
  override and the rankings are.
\<close>

theorem selectChairman_fallback_total:
  "(\<not> overrideApplies stage1 userOverride \<and> aggregateRankings stage2 = [] \<longrightarrow>
      selectionMethod (selectChairman stage1 stage2 userOverride) = Fallback \<and>
      model (selectChairman stage1 stage2 userOverride) = firstResponderModel stage1)
   \<and> (analyses stage1 = [] \<longrightarrow>
        selectionMethod (selectChairman stage1 stage2 userOverride) = Fallback \<and>
        model (selectChairman stage1 stage2 userOverride) = ''unknown'')
   \<and> (\<forall>a rest m. analyses stage1 = a # rest \<and> modelId a = Some m \<and> m \<noteq> [] \<longrightarrow>
        firstResponderModel stage1 = m)"
proof (intro conjI impI allI)
  assume a: "\<not> overrideApplies stage1 userOverride \<and> aggregateRankings stage2 = []"
  then have "topRankedModel stage1 stage2 = None"
    by (simp add: topRankedModel_def)
  with a have e: "selectChairman stage1 stage2 userOverride = fallbackSelection stage1"
    by (simp add: selectChairman_no_top)
  show "selectionMethod (selectChairman stage1 stage2 userOverride) = Fallback"
    by (simp add: e fallbackSelection_eq)
  show "model (selectChairman stage1 stage2 userOverride) = firstResponderModel stage1"
    by (simp add: e fallbackSelection_eq)
next
  assume a: "analyses stage1 = []"
  then have "\<not> overrideApplies stage1 userOverride"
    by (simp add: overrideApplies_def split: option.splits)
  moreover from a have "topRankedModel stage1 stage2 = None"
    by (simp add: topRankedModel_def split: list.splits)
  ultimately have e: "selectChairman stage1 stage2 userOverride = fallbackSelection stage1"
    by (simp add: selectChairman_no_top)
  show "selectionMethod (selectChairman stage1 stage2 userOverride) = Fallback"
    by (simp add: e fallbackSelection_eq)
  from a show "model (selectChairman stage1 stage2 userOverride) = ''unknown''"
    by (simp add: e fallbackSelection_eq firstResponderModel_def)
next
  fix a rest m
  assume "analyses stage1 = a # rest \<and> modelId a = Some m \<and> m \<noteq> []"
  then show "firstResponderModel stage1 = m"
    by (simp add: firstResponderModel_def)
qed

text \<open>
  The theorem where Stage 2 produced no ranking for the P4 analyses (the first
  responder \<open>m1\<close> is selected), and where there is no analysis at all.
\<close>

theorem selectChairman_fallback_total_witness:
  "selectionMethod (selectChairman p4_stage1 (p4_stage2\<lparr>aggregateRankings := []\<rparr>) (Some ''m9''))
     = Fallback
   \<and> model (selectChairman p4_stage1 (p4_stage2\<lparr>aggregateRankings := []\<rparr>) (Some ''m9''))
     = ''m1''
   \<and> selectionMethod (selectChairman (p4_stage1\<lparr>analyses := []\<rparr>) p4_stage2 (Some ''m1''))
     = Fallback
   \<and> model (selectChairman (p4_stage1\<lparr>analyses := []\<rparr>) p4_stage2 (Some ''m1''))
     = ''unknown''"
proof -
  have h1: "\<not> overrideApplies p4_stage1 (Some ''m9'')
            \<and> aggregateRankings (p4_stage2\<lparr>aggregateRankings := []\<rparr>) = []"
    by (simp add: overrideApplies_def p4_stage1_def p4_analyses_def p4_analysis_def)
  have h2: "analyses (p4_stage1\<lparr>analyses := []\<rparr>) = []"
    by simp
  have h3: "analyses p4_stage1 =
              p4_analysis ''A'' ''m1'' # [p4_analysis ''B'' ''m2'', p4_analysis ''C'' ''m3'']
            \<and> modelId (p4_analysis ''A'' ''m1'') = Some ''m1'' \<and> ''m1'' \<noteq> []"
    by (simp add: p4_stage1_def p4_analyses_def p4_analysis_def)
  have f: "firstResponderModel p4_stage1 = ''m1''"
    using selectChairman_fallback_total
            [of p4_stage1 "Some ''m9''" "p4_stage2\<lparr>aggregateRankings := []\<rparr>"] h3
    by blast
  show ?thesis
    using selectChairman_fallback_total
            [of p4_stage1 "Some ''m9''" "p4_stage2\<lparr>aggregateRankings := []\<rparr>"]
          selectChairman_fallback_total
            [of "p4_stage1\<lparr>analyses := []\<rparr>" "Some ''m1''" p4_stage2]
          h1 h2 f
    by simp
qed

text \<open>
  Claim C10 as it is written fails where the first Stage-1 analysis carries the empty
  model id: with no override and no rankings the code returns the sentinel \<open>unknown\<close>,
  which is not that analysis's model id.
\<close>

theorem selectChairman_fallback_counterexample:
  "model (selectChairman
            \<lparr>analyses = [p4_analysis ''A'' ''''], complete1 = True, errors1 = []\<rparr>
            \<lparr>peerReviews = [], aggregateRankings = [], complete2 = False, errors2 = []\<rparr>
            None)
     = ''unknown''
   \<and> modelId (hd (analyses \<lparr>analyses = [p4_analysis ''A'' ''''], complete1 = True, errors1 = []\<rparr>))
     = Some ''''"
  by (simp add: selectChairman_def fallbackSelection_def p4_analysis_def)

section \<open>Audit: consensus tier, dissent suppression, process integrity\<close>

lemma ceil_half: "\<lceil>(of_nat n :: rat) / 2\<rceil> = int ((n + 1) div 2)"
proof -
  have "\<lceil>(of_nat n :: rat) / 2\<rceil> = \<lceil>(of_int (int n) :: rat) / of_int 2\<rceil>" by simp
  also have "\<dots> = - ((- int n) div 2)" by (simp only: ceiling_divide_eq_div)
  also have "\<dots> = int ((n + 1) div 2)" by linarith
  finally show ?thesis .
qed

lemma rankingConsensus_buildStage2Audit:
  "rankingConsensus (buildStage2Audit h stage1 stage2) = rankingConsensusOf (peerReviews stage2)"
  by (simp add: buildStage2Audit_def Let_def)

lemma card_topPicks_le: "card (set (map topPick rs)) \<le> length rs"
  by (metis card_length length_map)

lemma card_one_all_equal:
  assumes "xs \<noteq> []"
  shows "card (set xs) = 1 \<longleftrightarrow> (\<forall>x \<in> set xs. x = hd xs)"
proof
  assume "card (set xs) = 1"
  then obtain y where "set xs = {y}" by (auto simp: card_1_singleton_iff)
  moreover from assms have "hd xs \<in> set xs" by simp
  ultimately show "\<forall>x \<in> set xs. x = hd xs" by auto
next
  assume "\<forall>x \<in> set xs. x = hd xs"
  with assms have "set xs = {hd xs}" by (cases xs) auto
  then show "card (set xs) = 1" by simp
qed

text \<open>
  Claim C8, as amended. For every non-empty list of completed peer reviews, with \<open>n\<close>
  reviewers and \<open>u\<close> different top picks, the tier of the Stage-2 audit is \<open>strong\<close>
  exactly when all reviewers have the same top pick (\<open>u = 1\<close>); \<open>moderate\<close> exactly
  when it is not strong and \<open>u\<close> is at most half the reviewer count rounded up,
  \<open>u \<le> \<lceil>n / 2\<rceil>\<close>; \<open>weak\<close> exactly when \<open>\<lceil>n / 2\<rceil> < u < n\<close>; and \<open>none\<close> otherwise,
  that is when there are at least two reviewers and all top picks differ.
\<close>

theorem ranking_consensus_tiers:
  assumes "peerReviews stage2 \<noteq> []"
  shows
    "(rankingConsensus (buildStage2Audit h stage1 stage2) = Strong \<longleftrightarrow>
        list_all (\<lambda>r. topPick r = topPick (hd (peerReviews stage2))) (peerReviews stage2))
     \<and> (rankingConsensus (buildStage2Audit h stage1 stage2) = Strong \<longleftrightarrow>
          card (set (map topPick (peerReviews stage2))) = 1)
     \<and> (rankingConsensus (buildStage2Audit h stage1 stage2) = Moderate \<longleftrightarrow>
          card (set (map topPick (peerReviews stage2))) \<noteq> 1 \<and>
          int (card (set (map topPick (peerReviews stage2))))
            \<le> \<lceil>(of_nat (length (peerReviews stage2)) :: rat) / 2\<rceil>)
     \<and> (rankingConsensus (buildStage2Audit h stage1 stage2) = Weak \<longleftrightarrow>
          \<lceil>(of_nat (length (peerReviews stage2)) :: rat) / 2\<rceil>
            < int (card (set (map topPick (peerReviews stage2)))) \<and>
          card (set (map topPick (peerReviews stage2))) < length (peerReviews stage2))
     \<and> (rankingConsensus (buildStage2Audit h stage1 stage2) = NoConsensus \<longleftrightarrow>
          2 \<le> length (peerReviews stage2) \<and> distinct (map topPick (peerReviews stage2)))"
proof -
  define rs where "rs = peerReviews stage2"
  define u where "u = card (set (map topPick rs))"
  define n where "n = length rs"
  have u_len: "length (remdups (map topPick rs)) = u"
    by (simp add: u_def length_remdups_card_conv)
  have u_le: "u \<le> n"
    unfolding u_def n_def by (rule card_topPicks_le)
  from assms have "map topPick rs \<noteq> []" by (simp add: rs_def)
  then have u_pos: "0 < u"
    unfolding u_def by (simp add: card_gt_0_iff)
  have c: "rankingConsensus (buildStage2Audit h stage1 stage2) =
             (if u = 1 then Strong
              else if u \<le> (n + 1) div 2 then Moderate
              else if u < n then Weak else NoConsensus)"
    by (simp add: rankingConsensus_buildStage2Audit rankingConsensusOf_def Let_def
          u_len rs_def[symmetric] n_def)
  have all_eq: "u = 1 \<longleftrightarrow> list_all (\<lambda>r. topPick r = topPick (hd rs)) rs"
  proof -
    from assms have ne: "map topPick rs \<noteq> []" by (simp add: rs_def)
    have "hd (map topPick rs) = topPick (hd rs)"
      using assms by (simp add: rs_def hd_map)
    with card_one_all_equal[OF ne] show ?thesis
      by (auto simp: u_def list_all_iff)
  qed
  have dist: "distinct (map topPick rs) \<longleftrightarrow> u = n"
    by (simp add: u_def n_def card_distinct distinct_card
          del: set_map) (metis card_distinct distinct_card length_map)
  have ceil: "\<lceil>(of_nat n :: rat) / 2\<rceil> = int ((n + 1) div 2)"
    by (rule ceil_half)
  have s: "rankingConsensus (buildStage2Audit h stage1 stage2) = Strong \<longleftrightarrow> u = 1"
    by (simp add: c)
  have m: "rankingConsensus (buildStage2Audit h stage1 stage2) = Moderate \<longleftrightarrow>
             u \<noteq> 1 \<and> int u \<le> \<lceil>(of_nat n :: rat) / 2\<rceil>"
    by (simp add: c ceil)
  have w: "rankingConsensus (buildStage2Audit h stage1 stage2) = Weak \<longleftrightarrow>
             \<lceil>(of_nat n :: rat) / 2\<rceil> < int u \<and> u < n"
    using u_pos by (auto simp: c ceil)
  have no: "rankingConsensus (buildStage2Audit h stage1 stage2) = NoConsensus \<longleftrightarrow>
              2 \<le> n \<and> u = n"
    using u_pos u_le by (auto simp: c)
  show ?thesis
    using s m w no all_eq dist unfolding u_def n_def rs_def by simp
qed

lemma p4_topPicks: "map topPick p4_reviews = [Some ''A'', Some ''B'', Some ''A'']"
  by (simp add: p4_reviews_def p4_review_def topPick_def)

lemma p4_uniqueTopPicks: "card (set (map topPick p4_reviews)) = 2"
proof -
  have "card (set (map topPick p4_reviews)) = length (remdups (map topPick p4_reviews))"
    by (simp only: length_remdups_card_conv)
  also have "\<dots> = 2"
    by (simp add: p4_topPicks)
  finally show ?thesis .
qed

lemma p4_reviewers: "length p4_reviews = 3"
  by (simp add: p4_reviews_def)

text \<open>
  The theorem at the P4 example, where three reviewers have the two top picks A and B:
  the tier is \<open>moderate\<close>, since 2 is at most \<open>\<lceil>3 / 2\<rceil> = 2\<close>.
\<close>

theorem ranking_consensus_tiers_witness:
  "peerReviews p4_stage2 \<noteq> []
   \<and> rankingConsensus (buildStage2Audit noHeuristics p4_stage1 p4_stage2) = Moderate
   \<and> card (set (map topPick (peerReviews p4_stage2))) = 2
   \<and> \<lceil>(of_nat (length (peerReviews p4_stage2)) :: rat) / 2\<rceil> = 2"
proof -
  have ne: "peerReviews p4_stage2 \<noteq> []"
    by (simp add: p4_stage2_def p4_reviews_def)
  have pr: "peerReviews p4_stage2 = p4_reviews"
    by (simp add: p4_stage2_def)
  have u: "card (set (map topPick (peerReviews p4_stage2))) = 2"
    by (simp only: pr p4_uniqueTopPicks)
  have n: "\<lceil>(of_nat (length (peerReviews p4_stage2)) :: rat) / 2\<rceil> = 2"
    using ceil_half [of 3] by (simp add: pr p4_reviewers)
  from ranking_consensus_tiers [OF ne, of noHeuristics p4_stage1]
  have "rankingConsensus (buildStage2Audit noHeuristics p4_stage1 p4_stage2) = Moderate \<longleftrightarrow>
          card (set (map topPick (peerReviews p4_stage2))) \<noteq> 1 \<and>
          int (card (set (map topPick (peerReviews p4_stage2))))
            \<le> \<lceil>(of_nat (length (peerReviews p4_stage2)) :: rat) / 2\<rceil>"
    by blast
  then have "rankingConsensus (buildStage2Audit noHeuristics p4_stage1 p4_stage2) = Moderate"
    unfolding u n by simp
  with ne u n show ?thesis by blast
qed

text \<open>
  Claim C8 as it is written fails at the P4 example. With three reviewers and two
  different top picks the number of top picks is not at most half the reviewer count
  (2 > 3/2) and is smaller than the reviewer count, so the claim gives \<open>weak\<close>; the code
  compares with \<open>Math.ceil(3 / 2) = 2\<close> and gives \<open>moderate\<close>.
\<close>

theorem ranking_consensus_counterexample:
  "rankingConsensus (buildStage2Audit noHeuristics p4_stage1 p4_stage2) = Moderate
   \<and> length (peerReviews p4_stage2) < 2 * card (set (map topPick (peerReviews p4_stage2)))
   \<and> card (set (map topPick (peerReviews p4_stage2))) < length (peerReviews p4_stage2)"
proof -
  have pr: "peerReviews p4_stage2 = p4_reviews"
    by (simp add: p4_stage2_def)
  have "rankingConsensusOf p4_reviews = Moderate"
    by (simp add: rankingConsensusOf_def p4_topPicks p4_reviewers)
  then show ?thesis
    by (simp only: rankingConsensus_buildStage2Audit pr p4_uniqueTopPicks p4_reviewers) simp
qed

lemma anomalies3_buildStage3Audit:
  "anomalies3 (buildStage3Audit h stage1 stage2 stage3) =
     dissentAnomalies (dissentSuppressedOf stage1 stage3)
       @ dominanceAnomalies (sourceRelianceOf h (synthesis stage3) (analyses stage1))
       @ divergenceAnomalies stage1 stage2 (sourceRelianceOf h (synthesis stage3) (analyses stage1))"
  unfolding buildStage3Audit_def Let_def by (simp only: Stage3Audit.simps)

lemma dissentSuppressed_buildStage3Audit:
  "dissentSuppressed (buildStage3Audit h stage1 stage2 stage3) = dissentSuppressedOf stage1 stage3"
  by (simp add: buildStage3Audit_def Let_def)

lemma dominance_not_dissent:
  "a \<in> set (dominanceAnomalies reliance) \<Longrightarrow> anomalyType a = SingleSourceDominance"
  by (auto simp: dominanceAnomalies_def Let_def split: if_splits)

lemma divergence_not_dissent:
  "a \<in> set (divergenceAnomalies stage1 stage2 reliance) \<Longrightarrow> anomalyType a = SynthesisDivergence"
  by (cases "divergentPair stage1 stage2 reliance")
     (auto simp: divergenceAnomalies_def divergenceAnomaly_def)

lemma dissent_flag_iff:
  "list_ex (\<lambda>a. anomalyType a = DissentSuppression \<and> severity a = Warning)
     (anomalies3 (buildStage3Audit h stage1 stage2 stage3))
   \<longleftrightarrow> 0 < dissentSuppressedOf stage1 stage3"
proof -
  have "\<not> list_ex (\<lambda>a. anomalyType a = DissentSuppression \<and> severity a = Warning)
          (dominanceAnomalies r)" for r
    by (auto simp: list_ex_iff dest: dominance_not_dissent)
  moreover have "\<not> list_ex (\<lambda>a. anomalyType a = DissentSuppression \<and> severity a = Warning)
          (divergenceAnomalies stage1 stage2 r)" for r
    by (auto simp: list_ex_iff dest: divergence_not_dissent)
  ultimately show ?thesis
    by (simp add: anomalies3_buildStage3Audit dissentAnomalies_def)
qed

lemma positionKey_string:
  "assessmentOf a = Some (JStr x) \<Longrightarrow> positionKey i a = ByValue (JStr x)"
  by (simp add: positionKey_def)

lemma uniquePositions_strings:
  assumes "\<forall>a \<in> set as. \<exists>x. assessmentOf a = Some (JStr x)"
  shows "uniquePositions as = card (set (List.map_filter assessmentString as))"
proof -
  let ?s = "\<lambda>a. the (assessmentString a)"
  let ?g = "\<lambda>x. ByValue (JStr x)"
  have key: "positionKey i a = ?g (?s a)" if "a \<in> set as" for i a
  proof -
    from that assms obtain x where "assessmentOf a = Some (JStr x)" by blast
    then show ?thesis by (simp add: positionKey_string assessmentString_def)
  qed
  have keys: "map (\<lambda>(i, a). positionKey i a) (enumerate 0 as) = map (\<lambda>a. ?g (?s a)) as"
    by (rule nth_equalityI) (simp_all add: nth_enumerate_eq key)
  have "assessmentString a \<noteq> None" if "a \<in> set as" for a
  proof -
    from that assms obtain x where "assessmentOf a = Some (JStr x)" by blast
    then show ?thesis by (simp add: assessmentString_def)
  qed
  then have "filter (\<lambda>a. assessmentString a \<noteq> None) as = as"
    by (simp add: filter_id_conv)
  then have strings: "List.map_filter assessmentString as = map ?s as"
    by (simp add: List.map_filter_def)
  have "uniquePositions as = card (?g ` (?s ` set as))"
    unfolding uniquePositions_def keys length_remdups_card_conv
    by (simp add: image_image)
  also have "\<dots> = card (?s ` set as)"
    by (rule card_image) (simp add: inj_on_def)
  finally show ?thesis
    by (simp add: strings)
qed

lemma key_in_positions:
  assumes "a \<in> set as" and "assessmentOf a = Some (JStr x)"
  shows "ByValue (JStr x) \<in> set (map (\<lambda>(i, a). positionKey i a) (enumerate 0 as))"
proof -
  from assms(1) obtain i where i: "i < length as" "as ! i = a"
    by (auto simp: in_set_conv_nth)
  then have "(i, a) \<in> set (enumerate 0 as)"
    by (auto simp: in_set_enumerate_eq)
  moreover have "positionKey i a = ByValue (JStr x)"
    using assms(2) by (rule positionKey_string)
  ultimately show ?thesis by force
qed

lemma three_positions:
  assumes "a \<in> set as" "assessmentOf a = Some (JStr x)"
    and "b \<in> set as" "assessmentOf b = Some (JStr y)"
    and "c \<in> set as" "assessmentOf c = Some (JStr z)"
    and "x \<noteq> y" "y \<noteq> z" "x \<noteq> z"
  shows "3 \<le> uniquePositions as"
proof -
  let ?K = "set (map (\<lambda>(i, a). positionKey i a) (enumerate 0 as))"
  have sub: "{ByValue (JStr x), ByValue (JStr y), ByValue (JStr z)} \<subseteq> ?K"
    using key_in_positions[OF assms(1,2)] key_in_positions[OF assms(3,4)]
      key_in_positions[OF assms(5,6)] by simp
  have "card {ByValue (JStr x), ByValue (JStr y), ByValue (JStr z)} = 3"
    using assms(7-9) by simp
  moreover have "card {ByValue (JStr x), ByValue (JStr y), ByValue (JStr z)} \<le> card ?K"
    by (rule card_mono[OF _ sub]) simp
  ultimately show ?thesis
    unfolding uniquePositions_def length_remdups_card_conv by simp
qed

text \<open>
  Claim C9, as amended. For Stage-1 analyses that each carry an assessment string, the
  \<open>dissentSuppressed\<close> value of the Stage-3 audit equals the number of materially
  distinct Stage-1 positions (distinct assessment strings across the analyses), minus
  one, minus the number of dissent entries preserved in the Stage-3 synthesis, floored
  at 0. For every input, a \<open>dissent-suppression\<close> warning is among the anomalies of the
  stage exactly when \<open>dissentSuppressed\<close> is positive, and three analyses with three
  different assessment strings and fewer than two dissent entries always produce the
  flag.
\<close>

theorem dissent_suppression_audit:
  "((\<forall>a \<in> set (analyses stage1). \<exists>x. assessmentOf a = Some (JStr x)) \<longrightarrow>
      int (dissentSuppressed (buildStage3Audit h stage1 stage2 stage3)) =
        max 0 (int (distinctAssessments stage1) - 1 - int (length (dissent (synthesis stage3)))))
   \<and> dissentPreserved (buildStage3Audit h stage1 stage2 stage3)
       = length (dissent (synthesis stage3))
   \<and> (list_ex (\<lambda>a. anomalyType a = DissentSuppression \<and> severity a = Warning)
         (anomalies3 (buildStage3Audit h stage1 stage2 stage3))
       \<longleftrightarrow> 0 < dissentSuppressed (buildStage3Audit h stage1 stage2 stage3))
   \<and> (\<forall>a b c x y z.
         a \<in> set (analyses stage1) \<and> assessmentOf a = Some (JStr x) \<and>
         b \<in> set (analyses stage1) \<and> assessmentOf b = Some (JStr y) \<and>
         c \<in> set (analyses stage1) \<and> assessmentOf c = Some (JStr z) \<and>
         x \<noteq> y \<and> y \<noteq> z \<and> x \<noteq> z \<and> length (dissent (synthesis stage3)) < 2 \<longrightarrow>
         list_ex (\<lambda>a. anomalyType a = DissentSuppression \<and> severity a = Warning)
           (anomalies3 (buildStage3Audit h stage1 stage2 stage3)))"
proof (intro conjI allI impI)
  assume "\<forall>a \<in> set (analyses stage1). \<exists>x. assessmentOf a = Some (JStr x)"
  then have "uniquePositions (analyses stage1) = distinctAssessments stage1"
    unfolding distinctAssessments_def by (rule uniquePositions_strings)
  then show "int (dissentSuppressed (buildStage3Audit h stage1 stage2 stage3)) =
     max 0 (int (distinctAssessments stage1) - 1 - int (length (dissent (synthesis stage3))))"
    by (simp add: dissentSuppressed_buildStage3Audit dissentSuppressedOf_def)
next
  show "dissentPreserved (buildStage3Audit h stage1 stage2 stage3)
       = length (dissent (synthesis stage3))"
    by (simp add: buildStage3Audit_def Let_def)
  show "list_ex (\<lambda>a. anomalyType a = DissentSuppression \<and> severity a = Warning)
         (anomalies3 (buildStage3Audit h stage1 stage2 stage3))
       \<longleftrightarrow> 0 < dissentSuppressed (buildStage3Audit h stage1 stage2 stage3)"
    by (simp only: dissent_flag_iff dissentSuppressed_buildStage3Audit)
next
  fix a b c x y z
  assume h: "a \<in> set (analyses stage1) \<and> assessmentOf a = Some (JStr x) \<and>
         b \<in> set (analyses stage1) \<and> assessmentOf b = Some (JStr y) \<and>
         c \<in> set (analyses stage1) \<and> assessmentOf c = Some (JStr z) \<and>
         x \<noteq> y \<and> y \<noteq> z \<and> x \<noteq> z \<and> length (dissent (synthesis stage3)) < 2"
  then have "3 \<le> uniquePositions (analyses stage1)"
    using three_positions[of a "analyses stage1" x b y c z] by blast
  with h have "0 < dissentSuppressedOf stage1 stage3"
    by (simp add: dissentSuppressedOf_def)
  then show "list_ex (\<lambda>a. anomalyType a = DissentSuppression \<and> severity a = Warning)
           (anomalies3 (buildStage3Audit h stage1 stage2 stage3))"
    by (simp only: dissent_flag_iff)
qed

lemma p7_strings:
  "\<forall>a \<in> set (analyses p7_stage1). \<exists>x. assessmentOf a = Some (JStr x)"
  by (simp add: p7_stage1_def assessmentOf_def analysisWith_def)

lemma p7_distinctAssessments: "distinctAssessments p7_stage1 = 3"
proof -
  have "List.map_filter assessmentString (analyses p7_stage1) = [''liable'', ''not liable'', ''unclear'']"
    by (simp add: p7_stage1_def List.map_filter_def assessmentString_def assessmentOf_def
          analysisWith_def)
  then have "distinctAssessments p7_stage1 = length (remdups [''liable'', ''not liable'', ''unclear''])"
    unfolding distinctAssessments_def length_remdups_card_conv by simp
  also have "\<dots> = 3" by simp
  finally show ?thesis .
qed

text \<open>
  The theorem at three analyses with the assessments "liable", "not liable" and
  "unclear" and a synthesis without any dissent entry: two positions are suppressed and
  the warning is raised.
\<close>

theorem dissent_suppression_audit_witness:
  "distinctAssessments p7_stage1 = 3
   \<and> length (dissent (synthesis (stage3With []))) = 0
   \<and> dissentSuppressed (buildStage3Audit noHeuristics p7_stage1 p4_stage2 (stage3With [])) = 2
   \<and> list_ex (\<lambda>a. anomalyType a = DissentSuppression \<and> severity a = Warning)
        (anomalies3 (buildStage3Audit noHeuristics p7_stage1 p4_stage2 (stage3With [])))"
proof -
  let ?a = "analysisWith ''A'' ''m1'' [(''assessment'', JStr ''liable'')]"
  let ?b = "analysisWith ''B'' ''m2'' [(''assessment'', JStr ''not liable'')]"
  let ?c = "analysisWith ''C'' ''m3'' [(''assessment'', JStr ''unclear'')]"
  have d0: "length (dissent (synthesis (stage3With []))) = 0"
    by (simp add: stage3With_def synthesisWith_def)
  have hyp: "?a \<in> set (analyses p7_stage1) \<and> assessmentOf ?a = Some (JStr ''liable'') \<and>
         ?b \<in> set (analyses p7_stage1) \<and> assessmentOf ?b = Some (JStr ''not liable'') \<and>
         ?c \<in> set (analyses p7_stage1) \<and> assessmentOf ?c = Some (JStr ''unclear'') \<and>
         ''liable'' \<noteq> ''not liable'' \<and> ''not liable'' \<noteq> ''unclear'' \<and>
         ''liable'' \<noteq> ''unclear'' \<and> length (dissent (synthesis (stage3With []))) < 2"
    unfolding d0 by (simp add: p7_stage1_def assessmentOf_def analysisWith_def)
  note inst = dissent_suppression_audit [of p7_stage1 noHeuristics p4_stage2 "stage3With []"]
  have "int (dissentSuppressed
                   (buildStage3Audit noHeuristics p7_stage1 p4_stage2 (stage3With []))) =
     max 0 (int (distinctAssessments p7_stage1) - 1 - int (length (dissent (synthesis (stage3With [])))))"
    by (rule inst [THEN conjunct1, THEN mp, OF p7_strings])
  then have s: "dissentSuppressed
                  (buildStage3Audit noHeuristics p7_stage1 p4_stage2 (stage3With [])) = 2"
    unfolding p7_distinctAssessments d0 by simp
  have f: "list_ex (\<lambda>a. anomalyType a = DissentSuppression \<and> severity a = Warning)
        (anomalies3 (buildStage3Audit noHeuristics p7_stage1 p4_stage2 (stage3With [])))"
    by (rule inst [THEN conjunct2, THEN conjunct2, THEN conjunct2, rule_format, OF hyp])
  from p7_distinctAssessments d0 s f show ?thesis by (intro conjI)
qed

text \<open>
  Claim C9 as it is written fails: with three distinct assessment strings and one
  preserved dissent entry the claimed value is 3 - 1 = 2, the code's value is
  3 - 1 - 1 = 1, since the code also subtracts one for the position that the consensus
  takes.
\<close>

theorem dissent_suppression_counterexample:
  "distinctAssessments p7_stage1 = 3
   \<and> length (dissent (synthesis (stage3With [JObj []]))) = 1
   \<and> dissentSuppressed
       (buildStage3Audit noHeuristics p7_stage1 p4_stage2 (stage3With [JObj []])) = 1"
proof -
  have "uniquePositions (analyses p7_stage1) = 3"
    using uniquePositions_strings[OF p7_strings] p7_distinctAssessments
    by (simp add: distinctAssessments_def)
  then show ?thesis
    by (simp add: p7_distinctAssessments dissentSuppressed_buildStage3Audit dissentSuppressedOf_def
          stage3With_def synthesisWith_def)
qed




section \<open>Dispatcher: ordering, isolation and termination\<close>

lemma startWorkers_prefix:
  assumes "n \<le> min limit (length tasks)"
  shows "fold (claimNext tasks) [0..<n]
           \<lparr>results = replicate (length tasks) None, currentIndex = 0,
            workers = replicate (min limit (length tasks)) Finished, shared = s\<rparr>
         = \<lparr>results = replicate (length tasks) None, currentIndex = n,
            workers = map Awaiting [0..<n] @ replicate (min limit (length tasks) - n) Finished,
            shared = fold (\<lambda>i. begin_task (tasks ! i)) [0..<n] s\<rparr>"
  using assms
proof (induction n)
  case 0
  show ?case by simp
next
  case (Suc n)
  from Suc.prems have n: "n < min limit (length tasks)" by simp
  then have lt: "n < length tasks" by simp
  from n obtain k where k: "min limit (length tasks) - n = Suc k"
    by (metis Suc_diff_Suc)
  then have k': "min limit (length tasks) - Suc n = k" by simp
  have upd: "(map Awaiting [0..<n] @ replicate (Suc k) Finished)[n := Awaiting n]
             = map Awaiting [0..<Suc n] @ replicate k Finished"
    by (simp add: list_update_append)
  from Suc.IH n have IH: "fold (claimNext tasks) [0..<n]
           \<lparr>results = replicate (length tasks) None, currentIndex = 0,
            workers = replicate (min limit (length tasks)) Finished, shared = s\<rparr>
         = \<lparr>results = replicate (length tasks) None, currentIndex = n,
            workers = map Awaiting [0..<n] @ replicate (Suc k) Finished,
            shared = fold (\<lambda>i. begin_task (tasks ! i)) [0..<n] s\<rparr>"
    by (simp add: k)
  have "fold (claimNext tasks) [0..<Suc n]
           \<lparr>results = replicate (length tasks) None, currentIndex = 0,
            workers = replicate (min limit (length tasks)) Finished, shared = s\<rparr>
        = claimNext tasks n
            \<lparr>results = replicate (length tasks) None, currentIndex = n,
             workers = map Awaiting [0..<n] @ replicate (Suc k) Finished,
             shared = fold (\<lambda>i. begin_task (tasks ! i)) [0..<n] s\<rparr>"
    by (simp only: upt_Suc_append[OF le0] fold_append comp_apply fold_simps IH)
  also have "\<dots> = \<lparr>results = replicate (length tasks) None, currentIndex = Suc n,
            workers = map Awaiting [0..<Suc n] @ replicate k Finished,
            shared = fold (\<lambda>i. begin_task (tasks ! i)) [0..<Suc n] s\<rparr>"
    unfolding claimNext_def using lt upd by simp
  finally show ?case
    unfolding k' .
qed

lemma startWorkers_eq:
  "startWorkers tasks limit s =
     \<lparr>results = replicate (length tasks) None, currentIndex = min limit (length tasks),
      workers = map Awaiting [0..<min limit (length tasks)],
      shared = fold (\<lambda>i. begin_task (tasks ! i)) [0..<min limit (length tasks)] s\<rparr>"
  unfolding startWorkers_def by (simp add: startWorkers_prefix)

lemma inv_start: "dispatcher_inv tasks limit (startWorkers tasks limit s)"
  unfolding startWorkers_eq dispatcher_inv_def held_def by auto

lemma sum_weight_Awaiting: "sum_list (map (weight \<circ> Awaiting) xs) = 2 * length xs"
  by (induction xs) auto

lemma remaining_start: "remaining tasks (startWorkers tasks limit s) = 2 * length tasks"
  unfolding startWorkers_eq remaining_def by (auto simp: sum_weight_Awaiting min_def)

lemma held_update:
  assumes "w < length ws"
  shows "held (d\<lparr>workers := ws[w := x]\<rparr>) i \<longleftrightarrow>
           (x = Awaiting i \<or> x = Resuming i)
           \<or> (\<exists>v < length ws. v \<noteq> w \<and> (ws ! v = Awaiting i \<or> ws ! v = Resuming i))"
  using assms unfolding held_def
  by (auto simp: nth_list_update)

lemma dispatcher_invI:
  assumes "length (results d) = length tasks"
    and "length (workers d) = min limit (length tasks)"
    and "currentIndex d \<le> length tasks"
    and "\<forall>i. held d i \<longrightarrow> i < currentIndex d"
    and "\<forall>i < currentIndex d. held d i \<or> results d ! i = slotOf (outcome (tasks ! i))"
    and "(\<exists>w < length (workers d). workers d ! w = Finished) \<longrightarrow> currentIndex d = length tasks"
  shows "dispatcher_inv tasks limit d"
  using assms unfolding dispatcher_inv_def by blast

lemma inv_step:
  assumes inv: "dispatcher_inv tasks limit d" and w: "w < length (workers d)"
  shows "dispatcher_inv tasks limit (stepWorker tasks w d)"
proof (cases "workers d ! w")
  case (Awaiting i)
  have h: "held (stepWorker tasks w d) j \<longleftrightarrow> held d j" for j
  proof -
    have "stepWorker tasks w d
            = d\<lparr>workers := (workers d)[w := Resuming i],
                shared := finish_task (tasks ! i) (shared d)\<rparr>"
      by (simp add: stepWorker_def Awaiting)
    then have "held (stepWorker tasks w d) j \<longleftrightarrow> held (d\<lparr>workers := (workers d)[w := Resuming i]\<rparr>) j"
      by (simp add: held_def)
    also have "\<dots> \<longleftrightarrow> held d j"
      unfolding held_update[OF w] using w Awaiting by (auto simp: held_def)
    finally show ?thesis .
  qed
  have fin: "(\<exists>v < length (workers d). (workers d)[w := Resuming i] ! v = Finished)
             \<Longrightarrow> (\<exists>v < length (workers d). workers d ! v = Finished)"
    by (metis nth_list_update_eq nth_list_update_neq worker.distinct(5))
  have eq: "stepWorker tasks w d
              = d\<lparr>workers := (workers d)[w := Resuming i],
                  shared := finish_task (tasks ! i) (shared d)\<rparr>"
    by (simp add: stepWorker_def Awaiting)
  show ?thesis
  proof (rule dispatcher_invI)
    show "length (results (stepWorker tasks w d)) = length tasks"
      using inv unfolding dispatcher_inv_def by (simp add: eq)
    show "length (workers (stepWorker tasks w d)) = min limit (length tasks)"
      using inv unfolding dispatcher_inv_def by (simp add: eq)
    show "currentIndex (stepWorker tasks w d) \<le> length tasks"
      using inv unfolding dispatcher_inv_def by (simp add: eq)
    show "\<forall>i. held (stepWorker tasks w d) i \<longrightarrow> i < currentIndex (stepWorker tasks w d)"
      using inv unfolding dispatcher_inv_def h by (simp add: eq)
    show "\<forall>i < currentIndex (stepWorker tasks w d). held (stepWorker tasks w d) i
            \<or> results (stepWorker tasks w d) ! i = slotOf (outcome (tasks ! i))"
      using inv unfolding dispatcher_inv_def h by (simp add: eq)
    show "(\<exists>v < length (workers (stepWorker tasks w d)).
              workers (stepWorker tasks w d) ! v = Finished)
            \<longrightarrow> currentIndex (stepWorker tasks w d) = length tasks"
      using inv fin unfolding dispatcher_inv_def by (auto simp: eq)
  qed
next
  case (Resuming i)
  from inv Resuming w have i: "i < currentIndex d"
    unfolding dispatcher_inv_def held_def by blast
  from inv have len: "length (results d) = length tasks" and cur: "currentIndex d \<le> length tasks"
    unfolding dispatcher_inv_def by simp_all
  let ?d1 = "d\<lparr>results := (results d)[i := slotOf (outcome (tasks ! i))]\<rparr>"
  have st: "stepWorker tasks w d = claimNext tasks w ?d1"
    by (simp add: stepWorker_def Resuming)
  show ?thesis
  proof (cases "currentIndex d < length tasks")
    case True
    let ?c = "currentIndex d"
    have eq: "stepWorker tasks w d
                = ?d1\<lparr>currentIndex := ?c + 1, workers := (workers d)[w := Awaiting ?c],
                       shared := begin_task (tasks ! ?c) (shared d)\<rparr>"
      using True by (simp add: st claimNext_def)
    have h: "held (stepWorker tasks w d) j \<longleftrightarrow>
               j = ?c \<or> (\<exists>v < length (workers d). v \<noteq> w \<and>
                            (workers d ! v = Awaiting j \<or> workers d ! v = Resuming j))" for j
    proof -
      have "held (stepWorker tasks w d) j \<longleftrightarrow> held (d\<lparr>workers := (workers d)[w := Awaiting ?c]\<rparr>) j"
        by (simp add: eq held_def)
      then show ?thesis
        unfolding held_update[OF w] by auto
    qed
    have nofin: "\<not> (\<exists>v < length (workers d). workers d ! v = Finished)"
      using inv True unfolding dispatcher_inv_def by auto
    have nofin': "\<not> (\<exists>v < length (workers d). (workers d)[w := Awaiting ?c] ! v = Finished)"
      using nofin by (metis nth_list_update_eq nth_list_update_neq worker.distinct(3))
    have c1: "\<forall>j. held (stepWorker tasks w d) j \<longrightarrow> j < ?c + 1"
    proof (intro allI impI)
      fix j assume "held (stepWorker tasks w d) j"
      then have "j = ?c \<or> (\<exists>v < length (workers d). v \<noteq> w \<and>
                            (workers d ! v = Awaiting j \<or> workers d ! v = Resuming j))"
        by (simp only: h)
      then have "j = ?c \<or> held d j" by (auto simp: held_def)
      with inv show "j < ?c + 1" unfolding dispatcher_inv_def by auto
    qed
    have c2: "\<forall>j < ?c + 1. held (stepWorker tasks w d) j
                \<or> results (stepWorker tasks w d) ! j = slotOf (outcome (tasks ! j))"
    proof (intro allI impI)
      fix j assume j: "j < ?c + 1"
      show "held (stepWorker tasks w d) j
              \<or> results (stepWorker tasks w d) ! j = slotOf (outcome (tasks ! j))"
      proof (cases "j = ?c \<or> j = i")
        case True
        then show ?thesis
        proof
          assume "j = ?c" then show ?thesis by (simp add: h)
        next
          assume "j = i"
          with i len cur have "results (stepWorker tasks w d) ! j = slotOf (outcome (tasks ! j))"
            by (simp add: eq)
          then show ?thesis ..
        qed
      next
        case False
        with j have jc: "j < ?c" by simp
        with inv have "held d j \<or> results d ! j = slotOf (outcome (tasks ! j))"
          unfolding dispatcher_inv_def by blast
        then show ?thesis
        proof
          assume "held d j"
          then obtain v where v: "v < length (workers d)"
              "workers d ! v = Awaiting j \<or> workers d ! v = Resuming j"
            unfolding held_def by blast
          with Resuming False have "v \<noteq> w" by auto
          with v show ?thesis unfolding h by blast
        next
          assume "results d ! j = slotOf (outcome (tasks ! j))"
          with False have "results (stepWorker tasks w d) ! j = slotOf (outcome (tasks ! j))"
            by (simp add: eq)
          then show ?thesis ..
        qed
      qed
    qed
    have ci: "currentIndex (stepWorker tasks w d) = ?c + 1"
      by (simp add: eq)
    have wi: "workers (stepWorker tasks w d) = (workers d)[w := Awaiting ?c]"
      by (simp add: eq)
    show ?thesis
    proof (rule dispatcher_invI)
      show "length (results (stepWorker tasks w d)) = length tasks"
        using len by (simp add: eq)
      show "length (workers (stepWorker tasks w d)) = min limit (length tasks)"
        using inv unfolding dispatcher_inv_def by (simp add: eq)
      show "currentIndex (stepWorker tasks w d) \<le> length tasks"
        using True by (simp add: eq)
      show "\<forall>i. held (stepWorker tasks w d) i \<longrightarrow> i < currentIndex (stepWorker tasks w d)"
        using c1 by (simp only: ci)
      show "\<forall>i < currentIndex (stepWorker tasks w d). held (stepWorker tasks w d) i
              \<or> results (stepWorker tasks w d) ! i = slotOf (outcome (tasks ! i))"
        using c2 by (simp only: ci)
      show "(\<exists>v < length (workers (stepWorker tasks w d)).
                workers (stepWorker tasks w d) ! v = Finished)
              \<longrightarrow> currentIndex (stepWorker tasks w d) = length tasks"
        using nofin' unfolding wi by auto
    qed
  next
    case False
    with cur have ceq: "currentIndex d = length tasks" by simp
    have eq: "stepWorker tasks w d = ?d1\<lparr>workers := (workers d)[w := Finished]\<rparr>"
      using False by (simp add: st claimNext_def)
    have h: "held (stepWorker tasks w d) j \<longleftrightarrow>
               (\<exists>v < length (workers d). v \<noteq> w \<and>
                  (workers d ! v = Awaiting j \<or> workers d ! v = Resuming j))" for j
    proof -
      have "held (stepWorker tasks w d) j \<longleftrightarrow> held (d\<lparr>workers := (workers d)[w := Finished]\<rparr>) j"
        by (simp add: eq held_def)
      then show ?thesis
        unfolding held_update[OF w] by auto
    qed
    have c1: "\<forall>j. held (stepWorker tasks w d) j \<longrightarrow> j < currentIndex d"
    proof (intro allI impI)
      fix j assume "held (stepWorker tasks w d) j"
      then have "\<exists>v < length (workers d). v \<noteq> w \<and>
                   (workers d ! v = Awaiting j \<or> workers d ! v = Resuming j)"
        by (simp only: h)
      then have "held d j" by (auto simp: held_def)
      with inv show "j < currentIndex d" unfolding dispatcher_inv_def by auto
    qed
    have c2: "\<forall>j < currentIndex d. held (stepWorker tasks w d) j
                \<or> results (stepWorker tasks w d) ! j = slotOf (outcome (tasks ! j))"
    proof (intro allI impI)
      fix j assume j: "j < currentIndex d"
      show "held (stepWorker tasks w d) j
              \<or> results (stepWorker tasks w d) ! j = slotOf (outcome (tasks ! j))"
      proof (cases "j = i")
        case True
        with i len cur have "results (stepWorker tasks w d) ! j = slotOf (outcome (tasks ! j))"
          by (simp add: eq)
        then show ?thesis ..
      next
        case False
        from j inv have "held d j \<or> results d ! j = slotOf (outcome (tasks ! j))"
          unfolding dispatcher_inv_def by blast
        then show ?thesis
        proof
          assume "held d j"
          then obtain v where v: "v < length (workers d)"
              "workers d ! v = Awaiting j \<or> workers d ! v = Resuming j"
            unfolding held_def by blast
          with Resuming False have "v \<noteq> w" by auto
          with v show ?thesis unfolding h by blast
        next
          assume "results d ! j = slotOf (outcome (tasks ! j))"
          with False have "results (stepWorker tasks w d) ! j = slotOf (outcome (tasks ! j))"
            by (simp add: eq)
          then show ?thesis ..
        qed
      qed
    qed
    have ci: "currentIndex (stepWorker tasks w d) = currentIndex d"
      by (simp add: eq)
    show ?thesis
    proof (rule dispatcher_invI)
      show "length (results (stepWorker tasks w d)) = length tasks"
        using len by (simp add: eq)
      show "length (workers (stepWorker tasks w d)) = min limit (length tasks)"
        using inv unfolding dispatcher_inv_def by (simp add: eq)
      show "currentIndex (stepWorker tasks w d) \<le> length tasks"
        using cur by (simp add: eq)
      show "\<forall>i. held (stepWorker tasks w d) i \<longrightarrow> i < currentIndex (stepWorker tasks w d)"
        using c1 by (simp only: ci)
      show "\<forall>i < currentIndex (stepWorker tasks w d). held (stepWorker tasks w d) i
              \<or> results (stepWorker tasks w d) ! i = slotOf (outcome (tasks ! i))"
        using c2 by (simp only: ci)
      show "(\<exists>v < length (workers (stepWorker tasks w d)).
                workers (stepWorker tasks w d) ! v = Finished)
              \<longrightarrow> currentIndex (stepWorker tasks w d) = length tasks"
        using ceq by (simp add: ci)
    qed
  qed
next
  case Finished
  with inv show ?thesis by (simp add: stepWorker_def)
qed

lemma sum_weight_update:
  assumes "w < length ws"
  shows "sum_list (map weight (ws[w := x])) + weight (ws ! w) = sum_list (map weight ws) + weight x"
  using assms
proof (induction ws arbitrary: w)
  case Nil
  then show ?case by simp
next
  case (Cons a ws)
  then show ?case by (cases w) auto
qed

lemma remaining_step:
  assumes inv: "dispatcher_inv tasks limit d" and w: "w < length (workers d)"
    and nf: "workers d ! w \<noteq> Finished"
  shows "remaining tasks (stepWorker tasks w d) + 1 = remaining tasks d"
proof (cases "workers d ! w")
  case (Awaiting i)
  from sum_weight_update[OF w, of "Resuming i"] Awaiting
  show ?thesis by (simp add: remaining_def stepWorker_def)
next
  case (Resuming i)
  from inv have cur: "currentIndex d \<le> length tasks"
    unfolding dispatcher_inv_def by simp
  show ?thesis
  proof (cases "currentIndex d < length tasks")
    case True
    from sum_weight_update[OF w, of "Awaiting (currentIndex d)"] Resuming True
    show ?thesis by (simp add: remaining_def stepWorker_def claimNext_def)
  next
    case False
    from sum_weight_update[OF w, of Finished] Resuming False
    show ?thesis by (simp add: remaining_def stepWorker_def claimNext_def)
  qed
next
  case Finished
  with nf show ?thesis by simp
qed

lemma enabled_member: "w \<in> set (enabled d) \<longleftrightarrow> w < length (workers d) \<and> workers d ! w \<noteq> Finished"
  by (auto simp: enabled_def)

lemma stepLoop_cases:
  "(enabled d = [] \<and> stepLoop tasks c d = d)
   \<or> (\<exists>w. w < length (workers d) \<and> workers d ! w \<noteq> Finished \<and> stepLoop tasks c d = stepWorker tasks w d)"
proof (cases "enabled d")
  case Nil
  then show ?thesis by (simp add: stepLoop_def)
next
  case (Cons w ws)
  let ?v = "(w # ws) ! (c mod length (w # ws))"
  have "?v \<in> set (w # ws)" by (rule nth_mem) simp
  then have "?v \<in> set (enabled d)" by (simp add: Cons)
  then have "?v < length (workers d) \<and> workers d ! ?v \<noteq> Finished"
    using enabled_member by blast
  moreover have "stepLoop tasks c d = stepWorker tasks ?v d"
    by (simp add: stepLoop_def Cons)
  ultimately show ?thesis by blast
qed

lemma runLoop_idle: "enabled d = [] \<Longrightarrow> runLoop tasks schedule d = d"
  by (induction schedule) (simp_all add: stepLoop_def)

lemma remaining_zero:
  assumes "remaining tasks d = 0"
  shows "enabled d = []"
proof -
  from assms have "sum_list (map weight (workers d)) = 0" by (simp add: remaining_def)
  then have "\<forall>x \<in> set (workers d). weight x = 0" by (simp add: sum_list_eq_0_iff)
  then have "\<forall>x \<in> set (workers d). x = Finished"
    by (metis weight.elims zero_neq_numeral zero_neq_one)
  then show ?thesis by (simp add: enabled_def filter_empty_conv)
qed

lemma runLoop_inv:
  "dispatcher_inv tasks limit d \<Longrightarrow> dispatcher_inv tasks limit (runLoop tasks schedule d)"
proof (induction schedule arbitrary: d)
  case Nil
  then show ?case by simp
next
  case (Cons c cs)
  from stepLoop_cases[of d tasks c] Cons.prems
  have "dispatcher_inv tasks limit (stepLoop tasks c d)"
    by (auto intro: inv_step)
  then show ?case using Cons.IH by simp
qed

lemma runLoop_finishes:
  "dispatcher_inv tasks limit d \<Longrightarrow> remaining tasks d \<le> length schedule
     \<Longrightarrow> enabled (runLoop tasks schedule d) = []"
proof (induction schedule arbitrary: d)
  case Nil
  then show ?case by (simp add: remaining_zero)
next
  case (Cons c cs)
  from stepLoop_cases[of d tasks c] show ?case
  proof (elim disjE conjE exE)
    assume "enabled d = []"
    then show ?thesis by (simp only: runLoop_idle)
  next
    fix w
    assume w: "w < length (workers d)" "workers d ! w \<noteq> Finished"
      and s: "stepLoop tasks c d = stepWorker tasks w d"
    from remaining_step[OF Cons.prems(1) w] Cons.prems(2)
    have "remaining tasks (stepWorker tasks w d) \<le> length cs" by simp
    moreover have "dispatcher_inv tasks limit (stepWorker tasks w d)"
      using Cons.prems(1) w(1) by (rule inv_step)
    ultimately show ?thesis using Cons.IH s by simp
  qed
qed

lemma finished_results:
  assumes inv: "dispatcher_inv tasks limit d" and en: "enabled d = []" and limit: "1 \<le> limit"
  shows "results d = map (\<lambda>t. slotOf (outcome t)) tasks"
proof -
  from en have allfin: "\<forall>w < length (workers d). workers d ! w = Finished"
    by (auto simp: enabled_def filter_empty_conv)
  then have nh: "\<not> held d i" for i
    by (auto simp: held_def)
  have cur: "currentIndex d = length tasks"
  proof (cases "tasks = []")
    case True
    with inv show ?thesis unfolding dispatcher_inv_def by simp
  next
    case False
    with inv limit have "0 < length (workers d)"
      unfolding dispatcher_inv_def by simp
    with allfin have "\<exists>w < length (workers d). workers d ! w = Finished" by blast
    with inv show ?thesis unfolding dispatcher_inv_def by blast
  qed
  from inv have len: "length (results d) = length tasks"
    unfolding dispatcher_inv_def by simp
  show ?thesis
  proof (rule nth_equalityI)
    show "length (results d) = length (map (\<lambda>t. slotOf (outcome t)) tasks)"
      by (simp add: len)
  next
    fix i assume "i < length (results d)"
    with len cur have i: "i < currentIndex d" by simp
    with inv nh have "results d ! i = slotOf (outcome (tasks ! i))"
      unfolding dispatcher_inv_def by blast
    with i cur show "results d ! i = map (\<lambda>t. slotOf (outcome t)) tasks ! i" by simp
  qed
qed

subsection \<open>Every task runs exactly once\<close>

lemma shared_workerEvents:
  "shared (stepWorker tasks w d) = fold (applyEvent tasks) (workerEvents tasks w d) (shared d)"
  by (cases "workers d ! w") (simp_all add: stepWorker_def workerEvents_def claimNext_def)

lemma shared_loopEvents:
  "shared (stepLoop tasks c d) = fold (applyEvent tasks) (loopEvents tasks c d) (shared d)"
  by (cases "enabled d") (simp_all add: stepLoop_def loopEvents_def shared_workerEvents)

lemma shared_runEvents:
  "shared (runLoop tasks schedule d) = fold (applyEvent tasks) (runEvents tasks schedule d) (shared d)"
  by (induction schedule arbitrary: d) (simp_all add: shared_loopEvents)

lemma shared_trace:
  "shared (runLoop tasks schedule (startWorkers tasks limit s))
     = fold (applyEvent tasks) (trace tasks limit schedule s) s"
proof -
  have "shared (startWorkers tasks limit s)
          = fold (applyEvent tasks) (map Started [0..<min limit (length tasks)]) s"
    by (simp add: startWorkers_eq fold_map comp_def)
  then show ?thesis
    by (simp add: trace_def shared_runEvents)
qed

lemma filter_update_length:
  "w < length ws \<Longrightarrow>
     length (filter P (ws[w := x])) + (if P (ws ! w) then 1 else 0)
       = length (filter P ws) + (if P x then 1 else 0)"
proof (induction ws arbitrary: w)
  case Nil
  then show ?case by simp
next
  case (Cons a ws)
  then show ?case by (cases w) auto
qed

lemma count_started_upt:
  "count_list (map Started [0..<k]) (Started i) = (if i < k then 1 else 0)"
  by (induction k) auto

lemma count_settled_started: "count_list (map Started xs) (Settled i) = 0"
  by (induction xs) auto

lemma count_awaiting_upt:
  "filter ((\<lambda>w. w = Awaiting i) \<circ> Awaiting) [0..<k] = (if i < k then [i] else [])"
  by (induction k) auto

lemma trace_inv_start:
  "trace_inv (startWorkers tasks limit s) (map Started [0..<min limit (length tasks)])"
  unfolding trace_inv_def startWorkers_eq
  by (simp add: count_started_upt count_settled_started count_awaiting_upt)

lemma trace_inv_step:
  assumes w: "w < length (workers d)" and inv: "trace_inv d evs"
  shows "trace_inv (stepWorker tasks w d) (evs @ workerEvents tasks w d)"
proof (cases "workers d ! w")
  case (Awaiting j)
  have eq: "stepWorker tasks w d
              = d\<lparr>workers := (workers d)[w := Resuming j],
                  shared := finish_task (tasks ! j) (shared d)\<rparr>"
    by (simp add: stepWorker_def Awaiting)
  have ev: "workerEvents tasks w d = [Settled j]"
    by (simp add: workerEvents_def Awaiting)
  show ?thesis
    unfolding trace_inv_def
  proof (intro allI conjI)
    fix i
    from inv show "count_list (evs @ workerEvents tasks w d) (Started i)
                     = (if i < currentIndex (stepWorker tasks w d) then 1 else 0)"
      by (simp add: trace_inv_def eq ev)
    from inv have old: "count_list evs (Settled i)
                          + length (filter (\<lambda>v. v = Awaiting i) (workers d))
                        = (if i < currentIndex d then 1 else 0)"
      by (simp add: trace_inv_def)
    from filter_update_length[OF w, of "\<lambda>v. v = Awaiting i" "Resuming j"] Awaiting
    have "length (filter (\<lambda>v. v = Awaiting i) ((workers d)[w := Resuming j]))
            + (if j = i then 1 else 0)
          = length (filter (\<lambda>v. v = Awaiting i) (workers d))"
      by simp
    with old show "count_list (evs @ workerEvents tasks w d) (Settled i)
            + length (filter (\<lambda>v. v = Awaiting i) (workers (stepWorker tasks w d)))
          = (if i < currentIndex (stepWorker tasks w d) then 1 else 0)"
      by (cases "i < currentIndex d"; cases "j = i"; simp add: eq ev del: length_0_conv)
  qed
next
  case (Resuming j)
  show ?thesis
  proof (cases "currentIndex d < length tasks")
    case True
    have eq: "stepWorker tasks w d
                = d\<lparr>results := (results d)[j := slotOf (outcome (tasks ! j))],
                    currentIndex := currentIndex d + 1,
                    workers := (workers d)[w := Awaiting (currentIndex d)],
                    shared := begin_task (tasks ! currentIndex d) (shared d)\<rparr>"
      by (simp add: stepWorker_def Resuming claimNext_def True)
    have ev: "workerEvents tasks w d = [Started (currentIndex d)]"
      by (simp add: workerEvents_def Resuming True)
    show ?thesis
      unfolding trace_inv_def
    proof (intro allI conjI)
      fix i
      from inv show "count_list (evs @ workerEvents tasks w d) (Started i)
                       = (if i < currentIndex (stepWorker tasks w d) then 1 else 0)"
        by (auto simp: trace_inv_def eq ev)
      from inv have old: "count_list evs (Settled i)
                            + length (filter (\<lambda>v. v = Awaiting i) (workers d))
                          = (if i < currentIndex d then 1 else 0)"
        by (simp add: trace_inv_def)
      from filter_update_length[OF w, of "\<lambda>v. v = Awaiting i" "Awaiting (currentIndex d)"] Resuming
      have "length (filter (\<lambda>v. v = Awaiting i) ((workers d)[w := Awaiting (currentIndex d)]))
            = length (filter (\<lambda>v. v = Awaiting i) (workers d))
                + (if currentIndex d = i then 1 else 0)"
        by simp
      with old show "count_list (evs @ workerEvents tasks w d) (Settled i)
              + length (filter (\<lambda>v. v = Awaiting i) (workers (stepWorker tasks w d)))
            = (if i < currentIndex (stepWorker tasks w d) then 1 else 0)"
        by (cases "i < currentIndex d"; cases "currentIndex d = i";
            simp add: eq ev del: length_0_conv)
    qed
  next
    case False
    have eq: "stepWorker tasks w d
                = d\<lparr>results := (results d)[j := slotOf (outcome (tasks ! j))],
                    workers := (workers d)[w := Finished]\<rparr>"
      by (simp add: stepWorker_def Resuming claimNext_def False)
    have ev: "workerEvents tasks w d = []"
      by (simp add: workerEvents_def Resuming False)
    show ?thesis
      unfolding trace_inv_def
    proof (intro allI conjI)
      fix i
      from inv show "count_list (evs @ workerEvents tasks w d) (Started i)
                       = (if i < currentIndex (stepWorker tasks w d) then 1 else 0)"
        by (simp add: trace_inv_def eq ev)
      from inv have old: "count_list evs (Settled i)
                            + length (filter (\<lambda>v. v = Awaiting i) (workers d))
                          = (if i < currentIndex d then 1 else 0)"
        by (simp add: trace_inv_def)
      from filter_update_length[OF w, of "\<lambda>v. v = Awaiting i" Finished] Resuming
      have "length (filter (\<lambda>v. v = Awaiting i) ((workers d)[w := Finished]))
            = length (filter (\<lambda>v. v = Awaiting i) (workers d))"
        by simp
      with old show "count_list (evs @ workerEvents tasks w d) (Settled i)
              + length (filter (\<lambda>v. v = Awaiting i) (workers (stepWorker tasks w d)))
            = (if i < currentIndex (stepWorker tasks w d) then 1 else 0)"
        by (simp add: eq ev)
    qed
  qed
next
  case Finished
  with inv show ?thesis
    by (simp add: stepWorker_def workerEvents_def)
qed

lemma trace_inv_loop:
  assumes "trace_inv d evs"
  shows "trace_inv (stepLoop tasks c d) (evs @ loopEvents tasks c d)"
proof (cases "enabled d")
  case Nil
  with assms show ?thesis by (simp add: stepLoop_def loopEvents_def)
next
  case (Cons w ws)
  let ?v = "(w # ws) ! (c mod length (w # ws))"
  have "?v \<in> set (w # ws)" by (rule nth_mem) simp
  then have "?v \<in> set (enabled d)" by (simp add: Cons)
  then have "?v < length (workers d)"
    using enabled_member by blast
  from trace_inv_step[OF this assms] show ?thesis
    by (simp add: stepLoop_def loopEvents_def Cons)
qed

lemma trace_inv_run:
  "trace_inv d evs \<Longrightarrow> trace_inv (runLoop tasks schedule d) (evs @ runEvents tasks schedule d)"
proof (induction schedule arbitrary: d evs)
  case Nil
  then show ?case by simp
next
  case (Cons c cs)
  from Cons.IH[OF trace_inv_loop[OF Cons.prems, of tasks c]] show ?case by simp
qed

lemma count_list_mset: "count (mset xs) x = count_list xs x"
  by (induction xs) auto

lemma count_settled_upt:
  "count_list (map Settled [0..<k]) (Settled i) = (if i < k then 1 else 0)"
  by (induction k) auto

lemma count_started_settled: "count_list (map Settled xs) (Started i) = 0"
  by (induction xs) auto

lemma trace_complete:
  assumes limit: "1 \<le> limit" and len: "2 * length tasks \<le> length schedule"
  shows "mset (trace tasks limit schedule s)
           = mset (map Started [0..<length tasks] @ map Settled [0..<length tasks])"
proof -
  let ?d = "runLoop tasks schedule (startWorkers tasks limit s)"
  have inv: "dispatcher_inv tasks limit ?d"
    by (rule runLoop_inv) (rule inv_start)
  have en: "enabled ?d = []"
  proof (rule runLoop_finishes)
    show "dispatcher_inv tasks limit (startWorkers tasks limit s)"
      by (rule inv_start)
    show "remaining tasks (startWorkers tasks limit s) \<le> length schedule"
      using len by (simp only: remaining_start)
  qed
  then have allfin: "\<forall>w < length (workers ?d). workers ?d ! w = Finished"
    by (auto simp: enabled_def filter_empty_conv)
  have cur: "currentIndex ?d = length tasks"
  proof (cases "tasks = []")
    case True
    with inv show ?thesis unfolding dispatcher_inv_def by simp
  next
    case False
    with inv limit have "0 < length (workers ?d)"
      unfolding dispatcher_inv_def by simp
    with allfin have "\<exists>w < length (workers ?d). workers ?d ! w = Finished" by blast
    with inv show ?thesis unfolding dispatcher_inv_def by blast
  qed
  have none: "filter (\<lambda>w. w = Awaiting i) (workers ?d) = []" for i
    using allfin by (auto simp: filter_empty_conv in_set_conv_nth)
  have tinv: "trace_inv ?d (trace tasks limit schedule s)"
    unfolding trace_def by (rule trace_inv_run) (rule trace_inv_start)
  show ?thesis
  proof (rule multiset_eqI)
    fix e
    show "count (mset (trace tasks limit schedule s)) e
            = count (mset (map Started [0..<length tasks] @ map Settled [0..<length tasks])) e"
    proof (cases e)
      case (Started i)
      from tinv have "count_list (trace tasks limit schedule s) (Started i)
                      = (if i < currentIndex ?d then 1 else 0)"
        unfolding trace_inv_def by blast
      with cur Started show ?thesis
        by (simp only: count_list_mset)
           (simp add: count_started_upt count_started_settled)
    next
      case (Settled i)
      from tinv have "count_list (trace tasks limit schedule s) (Settled i)
                        + length (filter (\<lambda>w. w = Awaiting i) (workers ?d))
                      = (if i < currentIndex ?d then 1 else 0)"
        unfolding trace_inv_def by blast
      with cur none[of i] Settled show ?thesis
        by (simp only: count_list_mset)
           (simp add: count_settled_upt count_settled_started)
    qed
  qed
qed

lemma withConcurrencyLimit_trace:
  assumes "1 \<le> limit" and "2 * length tasks \<le> length schedule"
  shows "withConcurrencyLimit tasks limit schedule s
           = Some (map (\<lambda>t. slotOf (outcome t)) tasks,
                   fold (applyEvent tasks) (trace tasks limit schedule s) s)"
proof -
  let ?d = "runLoop tasks schedule (startWorkers tasks limit s)"
  have inv: "dispatcher_inv tasks limit ?d"
    by (rule runLoop_inv) (rule inv_start)
  have en: "enabled ?d = []"
  proof (rule runLoop_finishes)
    show "dispatcher_inv tasks limit (startWorkers tasks limit s)"
      by (rule inv_start)
    show "remaining tasks (startWorkers tasks limit s) \<le> length schedule"
      using assms(2) by (simp only: remaining_start)
  qed
  from finished_results[OF inv en assms(1)] en show ?thesis
    by (simp add: withConcurrencyLimit_def Let_def shared_trace)
qed




lemma fold_begin_preserves:
  assumes "P s" and "\<forall>i \<in> set is. i < length tasks"
    and "\<And>t x. t \<in> set tasks \<Longrightarrow> P x \<Longrightarrow> P (begin_task t x)"
  shows "P (fold (\<lambda>i. begin_task (tasks ! i)) is s)"
  using assms(1,2)
proof (induction "is" arbitrary: s)
  case Nil
  then show ?case by simp
next
  case (Cons i "is")
  then have "P (begin_task (tasks ! i) s)"
    by (auto intro: assms(3))
  with Cons show ?case by simp
qed

lemma shared_start:
  assumes "P s" and "\<And>t x. t \<in> set tasks \<Longrightarrow> P x \<Longrightarrow> P (begin_task t x)"
  shows "P (shared (startWorkers tasks limit s))"
  unfolding startWorkers_eq
  using fold_begin_preserves[of P s "[0..<min limit (length tasks)]" tasks] assms
  by simp

lemma shared_step:
  assumes inv: "dispatcher_inv tasks limit d" and w: "w < length (workers d)"
    and P: "P (shared d)"
    and b: "\<And>t x. t \<in> set tasks \<Longrightarrow> P x \<Longrightarrow> P (begin_task t x)"
    and f: "\<And>t x. t \<in> set tasks \<Longrightarrow> P x \<Longrightarrow> P (finish_task t x)"
  shows "P (shared (stepWorker tasks w d))"
proof (cases "workers d ! w")
  case (Awaiting i)
  with w have "held d i" by (auto simp: held_def)
  with inv have "i < length tasks" unfolding dispatcher_inv_def by fastforce
  then have "tasks ! i \<in> set tasks" by simp
  with P f show ?thesis by (simp add: stepWorker_def Awaiting)
next
  case (Resuming i)
  show ?thesis
  proof (cases "currentIndex d < length tasks")
    case True
    then have "tasks ! currentIndex d \<in> set tasks" by simp
    with P b True show ?thesis by (simp add: stepWorker_def Resuming claimNext_def)
  next
    case False
    with P show ?thesis by (simp add: stepWorker_def Resuming claimNext_def)
  qed
next
  case Finished
  with P show ?thesis by (simp add: stepWorker_def)
qed

lemma shared_runLoop:
  assumes b: "\<And>t x. t \<in> set tasks \<Longrightarrow> P x \<Longrightarrow> P (begin_task t x)"
    and f: "\<And>t x. t \<in> set tasks \<Longrightarrow> P x \<Longrightarrow> P (finish_task t x)"
  shows "dispatcher_inv tasks limit d \<Longrightarrow> P (shared d) \<Longrightarrow> P (shared (runLoop tasks schedule d))"
proof (induction schedule arbitrary: d)
  case Nil
  then show ?case by simp
next
  case (Cons c cs)
  from stepLoop_cases[of d tasks c]
  have "dispatcher_inv tasks limit (stepLoop tasks c d) \<and> P (shared (stepLoop tasks c d))"
  proof (elim disjE conjE exE)
    assume "enabled d = []" "stepLoop tasks c d = d"
    with Cons.prems show ?thesis by simp
  next
    fix w
    assume "w < length (workers d)" "workers d ! w \<noteq> Finished"
      "stepLoop tasks c d = stepWorker tasks w d"
    with Cons.prems show ?thesis
      by (simp add: inv_step shared_step[where P = P, OF _ _ _ b f])
  qed
  with Cons.IH show ?case by simp
qed

lemma withConcurrencyLimit_shared:
  assumes "withConcurrencyLimit tasks limit schedule s = Some (slots, s')"
    and "P s"
    and b: "\<And>t x. t \<in> set tasks \<Longrightarrow> P x \<Longrightarrow> P (begin_task t x)"
    and f: "\<And>t x. t \<in> set tasks \<Longrightarrow> P x \<Longrightarrow> P (finish_task t x)"
  shows "P s'"
proof -
  have "P (shared (runLoop tasks schedule (startWorkers tasks limit s)))"
    by (rule shared_runLoop[where P = P and limit = limit, OF b f])
       (simp_all add: inv_start shared_start[where P = P, OF assms(2) b])
  with assms(1) show ?thesis
    by (auto simp: withConcurrencyLimit_def Let_def split: if_splits)
qed

lemma withConcurrencyLimit_returns:
  assumes "1 \<le> limit" and "2 * length tasks \<le> length schedule"
  shows "\<exists>s'. withConcurrencyLimit tasks limit schedule s
                 = Some (map (\<lambda>t. slotOf (outcome t)) tasks, s')"
proof -
  let ?d = "runLoop tasks schedule (startWorkers tasks limit s)"
  have inv: "dispatcher_inv tasks limit ?d"
    by (rule runLoop_inv) (rule inv_start)
  have en: "enabled ?d = []"
  proof (rule runLoop_finishes)
    show "dispatcher_inv tasks limit (startWorkers tasks limit s)"
      by (rule inv_start)
    show "remaining tasks (startWorkers tasks limit s) \<le> length schedule"
      using assms(2) by (simp only: remaining_start)
  qed
  from finished_results[OF inv en assms(1)] en show ?thesis
    by (simp add: withConcurrencyLimit_def)
qed

section \<open>Anonymization layer: the Stage-2 prompt\<close>

lemma analysesForReview_data:
  assumes "map reviewData (analyses stage1) = map reviewData (analyses stage1')"
  shows "analysesForReview stage1 = analysesForReview stage1'"
proof -
  define itemOf where "itemOf = (\<lambda>(l :: string, c :: string, s :: json option).
      JObj [(''label'', JStr l),
            (''analysis'', (case s of None \<Rightarrow> JStr c | Some v \<Rightarrow> if truthy v then v else JStr c))])"
  have "reviewItem a = itemOf (reviewData a)" for a
    by (simp add: itemOf_def reviewData_def reviewItem_def)
  then have "map reviewItem xs = map itemOf (map reviewData xs)" for xs
    by simp
  with assms show ?thesis
    by (simp only: analysesForReview_def)
qed

lemma runStage2_calls:
  assumes run: "runStage2 env stage1 members limit s = Some (stage2, s')"
    and call: "Stage2Call m p \<in> set (calls s')"
  shows "Stage2Call m p \<in> set (calls s) \<or> p = stage2UserPrompt stage1"
proof -
  let ?P = "\<lambda>x :: session. \<forall>m p. Stage2Call m p \<in> set (calls x)
                \<longrightarrow> Stage2Call m p \<in> set (calls s) \<or> p = stage2UserPrompt stage1"
  let ?tasks = "map (stage2Task env stage1) (enumerate 0 members)"
  from run obtain slots where
    w: "withConcurrencyLimit ?tasks limit (settleOrder2 env) (s\<lparr>stageErrors := []\<rparr>) = Some (slots, s')"
    by (auto simp: runStage2_def split: option.splits)
  have "?P s'"
  proof (rule withConcurrencyLimit_shared[where P = ?P, OF w])
    show "?P (s\<lparr>stageErrors := []\<rparr>)" by simp
  next
    fix t x
    assume "t \<in> set ?tasks" and "?P x"
    then show "?P (begin_task t x)"
      by (auto simp: stage2Task_def; blast)
  next
    fix t x
    assume "t \<in> set ?tasks" and "?P x"
    then show "?P (finish_task t x)"
      by (auto simp: stage2Task_def split: sum.splits; blast)
  qed
  with call show ?thesis by blast
qed

text \<open>
  Claim C6, as amended. The review payload and the Stage-2 user prompt are determined by
  the label and the content or structured data of each Stage-1 analysis: two Stage-1
  results that agree on these give the same payload and the same prompt, whatever the
  model ids of their analyses are. Every Stage-2 call that \<^verbatim>\<open>runStage2\<close> dispatches
  carries this prompt.
\<close>

theorem stage2_prompt_anonymous:
  "(map reviewData (analyses stage1) = map reviewData (analyses stage1') \<longrightarrow>
      analysesForReview stage1 = analysesForReview stage1' \<and>
      stage2UserPrompt stage1 = stage2UserPrompt stage1')
   \<and> (runStage2 env stage1 members limit s = Some (stage2, s') \<and>
       Stage2Call m p \<in> set (calls s') \<longrightarrow>
         Stage2Call m p \<in> set (calls s) \<or> p = stage2UserPrompt stage1)"
  using analysesForReview_data[of stage1 stage1'] runStage2_calls[of env stage1 members limit s stage2 s' m p]
  by (auto simp: stage2UserPrompt_def)

lemma c6_run:
  "map_option (calls \<circ> snd)
     (runStage2 (scenario (\<lambda>i. Threw1 []) (Threw3 [])) (c6_stage1 (Some ''model''))
        (assignLabels [''model'']) 1 emptySession)
   = Some [Stage2Call ''model'' (stage2UserPrompt (c6_stage1 (Some ''model'')))]"
  by code_simp

theorem stage2_prompt_anonymous_witness:
  "map reviewData (analyses (c6_stage1 (Some ''model''))) = map reviewData (analyses (c6_stage1 None))
   \<and> stage2UserPrompt (c6_stage1 (Some ''model'')) = stage2UserPrompt (c6_stage1 None)
   \<and> map_option (calls \<circ> snd)
        (runStage2 (scenario (\<lambda>i. Threw1 []) (Threw3 [])) (c6_stage1 (Some ''model''))
           (assignLabels [''model'']) 1 emptySession)
       = Some [Stage2Call ''model'' (stage2UserPrompt (c6_stage1 None))]"
proof -
  have d: "map reviewData (analyses (c6_stage1 (Some ''model'')))
             = map reviewData (analyses (c6_stage1 None))"
    by (simp add: c6_stage1_def c6_analysis_def reviewData_def)
  with stage2_prompt_anonymous[of "c6_stage1 (Some ''model'')" "c6_stage1 None"]
  have p: "stage2UserPrompt (c6_stage1 (Some ''model'')) = stage2UserPrompt (c6_stage1 None)"
    by blast
  from c6_run d p show ?thesis by simp
qed

theorem stage2_prompt_counterexample:
  "modelId (c6_analysis (Some ''model'')) = Some ''model''
   \<and> \<not> includesText (content (c6_analysis (Some ''model''))) ''model''
   \<and> includesText (stage2UserPrompt (c6_stage1 (Some ''model''))) ''model''"
  by code_simp

section \<open>Process integrity: examples\<close>





section \<open>Chairman failure\<close>

text \<open>
  When the chairman call throws, Stage 3 returns the empty synthesis with a
  non-recoverable error and the deliberation goes on to the audit. The audit raises a
  TypeError exactly when some threshold issue of a Stage-1 analysis cannot be read;
  otherwise the remainder of \<^verbatim>\<open>deliberate\<close> returns a result that carries the empty
  synthesis.
\<close>

lemma issueKey_readable: "readableIssue j \<longleftrightarrow> (\<exists>k. issueKey h j = Inr k)"
  by (auto simp: readableIssue_def issueKey_def split: json.splits option.splits)

lemma issueKey_failure: "issueKey h j = Inl e \<Longrightarrow> e = TypeError"
  by (auto simp: issueKey_def split: json.splits option.splits)

lemma countIssues_readable:
  "(\<forall>j \<in> set js. readableIssue j) \<longleftrightarrow> (\<exists>c. countIssues h l js counts = Inr c)"
proof (induction js arbitrary: counts)
  case Nil
  show ?case by simp
next
  case (Cons j js)
  show ?case
  proof (cases "issueKey h j")
    case (Inl e)
    then have "\<not> readableIssue j" by (simp add: issueKey_readable[of j h])
    with Inl show ?thesis by simp
  next
    case (Inr k)
    then have "readableIssue j" by (auto simp: issueKey_readable[of j h])
    with Inr Cons.IH show ?thesis by simp
  qed
qed

lemma countIssues_failure: "countIssues h l js counts = Inl e \<Longrightarrow> e = TypeError"
  by (induction js arbitrary: counts) (auto split: sum.splits dest: issueKey_failure)

lemma thresholdCounts_readable:
  "(\<forall>a \<in> set as. \<forall>j \<in> set (thresholdIssuesOf a). readableIssue j)
     \<longleftrightarrow> (\<exists>c. thresholdCounts h as counts = Inr c)"
proof (induction as arbitrary: counts)
  case Nil
  show ?case by simp
next
  case (Cons a as)
  show ?case
  proof (cases "countIssues h (label a) (thresholdIssuesOf a) counts")
    case (Inl e)
    then have "\<not> (\<forall>j \<in> set (thresholdIssuesOf a). readableIssue j)"
      using countIssues_readable[of "thresholdIssuesOf a" h "label a" counts] by simp
    with Inl show ?thesis by simp
  next
    case (Inr c)
    then have "\<forall>j \<in> set (thresholdIssuesOf a). readableIssue j"
      using countIssues_readable[of "thresholdIssuesOf a" h "label a" counts] by auto
    with Inr Cons.IH[of c] show ?thesis by simp
  qed
qed

lemma thresholdCounts_failure: "thresholdCounts h as counts = Inl e \<Longrightarrow> e = TypeError"
  by (induction as arbitrary: counts) (auto split: sum.splits dest: countIssues_failure)

lemma concludeDeliberation_chairman_failure:
  assumes "stage3Reply env (model (selectChairman stage1 stage2 (chairmanOverrideModel config)))
             = Threw3 msg"
  shows "(case fst (concludeDeliberation h env config members stage1 stage2 s) of
            Inl e \<Rightarrow>
              e = TypeError
              \<and> \<not> (\<forall>a \<in> set (analyses stage1). \<forall>j \<in> set (thresholdIssuesOf a). readableIssue j)
          | Inr d \<Rightarrow>
              (\<forall>a \<in> set (analyses stage1). \<forall>j \<in> set (thresholdIssuesOf a). readableIssue j)
              \<and> stageResults3 d
                  = failedStage3 config
                      (model (selectChairman stage1 stage2 (chairmanOverrideModel config))) msg
              \<and> reached (finalConsensus d) = False
              \<and> issuesIdentified d = [] \<and> finalDissent d = [] \<and> weaknessesFound d = []
              \<and> finalOpenQuestions d = [] \<and> finalActionItems d = [])"
proof (cases "thresholdCounts h (analyses stage1) []")
  case (Inl e)
  then have "e = TypeError" by (rule thresholdCounts_failure)
  moreover from Inl have "\<not> (\<forall>a \<in> set (analyses stage1). \<forall>j \<in> set (thresholdIssuesOf a). readableIssue j)"
    using thresholdCounts_readable[of "analyses stage1" h "[]"] by simp
  ultimately show ?thesis
    using Inl assms
    by (simp add: concludeDeliberation_def runStage3WithChairman_def buildAudit_def
                  detectCrossStageAnomalies_def Let_def)
next
  case (Inr c)
  then have "\<forall>a \<in> set (analyses stage1). \<forall>j \<in> set (thresholdIssuesOf a). readableIssue j"
    using thresholdCounts_readable[of "analyses stage1" h "[]"] by auto
  then show ?thesis
    using Inr assms
    by (simp add: concludeDeliberation_def runStage3WithChairman_def buildAudit_def
                  detectCrossStageAnomalies_def Let_def constructDeliberation_def
                  failedStage3_def getEmptySynthesis_def)
qed

section \<open>Quorum gate\<close>

subsection \<open>What a stage appends to a log\<close>

lemma map_filter_concat:
  "List.map_filter F xs = concat (map (\<lambda>x. case F x of None \<Rightarrow> [] | Some v \<Rightarrow> [v]) xs)"
  by (induction xs) (simp_all add: List.map_filter_simps split: option.splits)

lemma enumerate_upt: "enumerate 0 xs = map (\<lambda>i. (i, xs ! i)) [0..<length xs]"
  by (rule nth_equalityI) (simp_all add: nth_enumerate_eq)

lemma mset_concat_map: "mset (concat (map f xs)) = (\<Sum>x\<in>#mset xs. mset (f x))"
  by (induction xs) simp_all

lemma mset_concat_map_cong:
  "mset xs = mset ys \<Longrightarrow> mset (concat (map f xs)) = mset (concat (map f ys))"
  by (simp add: mset_concat_map)

lemma mset_concat_both:
  "mset (concat (map a xs)) + mset (concat (map b xs)) = mset (concat (map (\<lambda>i. a i @ b i) xs))"
  by (induction xs) simp_all

lemma fold_applyEvent_log:
  assumes "\<forall>e \<in> set evs. \<forall>x. g (applyEvent tasks e x) = g x @ f e"
  shows "g (fold (applyEvent tasks) evs x) = g x @ concat (map f evs)"
  using assms by (induction evs arbitrary: x) simp_all

lemma stage_log:
  assumes limit: "1 \<le> limit" and len: "2 * length tasks \<le> length schedule"
    and a: "\<And>i x. i < length tasks \<Longrightarrow> g (begin_task (tasks ! i) x) = g x @ a i"
    and b: "\<And>i x. i < length tasks \<Longrightarrow> g (finish_task (tasks ! i) x) = g x @ b i"
  shows "\<exists>s'. withConcurrencyLimit tasks limit schedule s
                 = Some (map (\<lambda>t. slotOf (outcome t)) tasks, s')
              \<and> mset (g s') = mset (g s) + mset (concat (map (\<lambda>i. a i @ b i) [0..<length tasks]))"
proof -
  let ?evs = "trace tasks limit schedule s"
  let ?all = "map Started [0..<length tasks] @ map Settled [0..<length tasks]"
  let ?f = "\<lambda>e. case e of Started i \<Rightarrow> a i | Settled i \<Rightarrow> b i"
  have complete: "mset ?evs = mset ?all"
    by (rule trace_complete[OF limit len])
  then have "set ?evs = set ?all"
    by (rule mset_eq_setD)
  then have "\<forall>e \<in> set ?evs. \<forall>x. g (applyEvent tasks e x) = g x @ ?f e"
    by (auto simp: a b)
  then have "g (fold (applyEvent tasks) ?evs s) = g s @ concat (map ?f ?evs)"
    by (rule fold_applyEvent_log)
  then have "mset (g (fold (applyEvent tasks) ?evs s)) = mset (g s) + mset (concat (map ?f ?evs))"
    by simp
  also have "mset (concat (map ?f ?evs)) = mset (concat (map ?f ?all))"
    using complete by (rule mset_concat_map_cong)
  also have "\<dots> = mset (concat (map (\<lambda>i. a i @ b i) [0..<length tasks]))"
    by (simp add: comp_def mset_concat_both[symmetric])
  finally show ?thesis
    using withConcurrencyLimit_trace[OF limit len, of s] by simp
qed

subsection \<open>Stage 1\<close>

lemma stage1_slots:
  "collected (map (\<lambda>t. slotOf (outcome t)) (map (stage1Task h env) xs))
     = List.map_filter
         (\<lambda>(i, member). if \<not> sessionIdBound env then None
                          else case stage1Outcome env i member of
                                 Inl msg \<Rightarrow> None
                               | Inr (analysis, tokens) \<Rightarrow> Some analysis) xs"
  by (induction xs)
     (auto simp: collected_def stage1Task_def split: sum.splits prod.splits)

lemma stage1_begin_errors:
  "stageErrors (begin_task (stage1Task h env (i, member)) x)
     = stageErrors x @ (if sessionIdBound env then []
                         else [stage1Error member ''sessionId is not defined''])"
  by (simp add: stage1Task_def stage1Failed_def stage1Error_def)

lemma stage1_finish_errors:
  "stageErrors (finish_task (stage1Task h env (i, member)) x)
     = stageErrors x @ (if sessionIdBound env
                         then (case stage1Outcome env i member of
                                 Inl msg \<Rightarrow> [stage1Error member msg]
                               | Inr r \<Rightarrow> [])
                         else [])"
  by (simp add: stage1Task_def stage1Failed_def stage1Error_def split: sum.splits prod.splits)

lemma stage1_calls:
  assumes run: "runStage1 h env members limit s = Some (stage1, s')"
    and none: "\<forall>m p. Stage2Call m p \<notin> set (calls s)"
  shows "\<forall>m p. Stage2Call m p \<notin> set (calls s')"
proof -
  let ?P = "\<lambda>x :: session. \<forall>m p. Stage2Call m p \<notin> set (calls x)"
  let ?tasks = "map (stage1Task h env) (enumerate 0 members)"
  from run obtain slots where
    w: "withConcurrencyLimit ?tasks limit (settleOrder1 env) (s\<lparr>stageErrors := []\<rparr>) = Some (slots, s')"
    by (auto simp: runStage1_def split: option.splits)
  show "?P s'"
  proof (rule withConcurrencyLimit_shared[where P = ?P, OF w])
    show "?P (s\<lparr>stageErrors := []\<rparr>)" using none by simp
  next
    fix t x
    assume "t \<in> set ?tasks" and "?P x"
    then show "?P (begin_task t x)"
      by (auto simp: stage1Task_def stage1Failed_def split: if_splits; blast)
  next
    fix t x
    assume "t \<in> set ?tasks" and "?P x"
    then show "?P (finish_task t x)"
      by (auto simp: stage1Task_def stage1Failed_def split: if_splits sum.splits prod.splits;
          blast)
  qed
qed

lemma runStage1_result:
  assumes limit: "1 \<le> limit" and len: "2 * length members \<le> length (settleOrder1 env)"
  shows "\<exists>stage1 s1. runStage1 h env members limit s = Some (stage1, s1)
           \<and> analyses stage1 = successfulAnalyses env members
           \<and> mset (errors1 stage1) = mset (expectedErrors1 env members)"
proof -
  let ?tasks = "map (stage1Task h env) (enumerate 0 members)"
  let ?a = "\<lambda>i. if sessionIdBound env then []
                 else [stage1Error (members ! i) ''sessionId is not defined'']"
  let ?b = "\<lambda>i. if sessionIdBound env
                 then (case stage1Outcome env i (members ! i) of
                         Inl msg \<Rightarrow> [stage1Error (members ! i) msg]
                       | Inr r \<Rightarrow> [])
                 else []"
  have n: "length ?tasks = length members" by simp
  have nth: "?tasks ! i = stage1Task h env (i, members ! i)" if "i < length members" for i
    using that by (simp add: nth_enumerate_eq)
  have "\<exists>s'. withConcurrencyLimit ?tasks limit (settleOrder1 env) (s\<lparr>stageErrors := []\<rparr>)
                 = Some (map (\<lambda>t. slotOf (outcome t)) ?tasks, s')
              \<and> mset (stageErrors s')
                  = mset (stageErrors (s\<lparr>stageErrors := []\<rparr>))
                    + mset (concat (map (\<lambda>i. ?a i @ ?b i) [0..<length ?tasks]))"
  proof (rule stage_log[where g = stageErrors and a = ?a and b = ?b])
    show "1 \<le> limit" by (rule limit)
    show "2 * length ?tasks \<le> length (settleOrder1 env)" using len by simp
    show "stageErrors (begin_task (?tasks ! i) x) = stageErrors x @ ?a i"
      if "i < length ?tasks" for i x
      using that by (simp add: nth_enumerate_eq stage1_begin_errors)
    show "stageErrors (finish_task (?tasks ! i) x) = stageErrors x @ ?b i"
      if "i < length ?tasks" for i x
      using that by (simp add: nth_enumerate_eq stage1_finish_errors)
  qed
  then obtain s1 where
    w: "withConcurrencyLimit ?tasks limit (settleOrder1 env) (s\<lparr>stageErrors := []\<rparr>)
          = Some (map (\<lambda>t. slotOf (outcome t)) ?tasks, s1)"
    and e: "mset (stageErrors s1) = mset (concat (map (\<lambda>i. ?a i @ ?b i) [0..<length members]))"
    by auto
  have "concat (map (\<lambda>i. ?a i @ ?b i) [0..<length members]) = expectedErrors1 env members"
    unfolding expectedErrors1_def map_filter_concat enumerate_upt map_map comp_def
    by (rule arg_cong[where f = concat], rule map_cong)
       (auto simp: stage1Failure_def split: sum.splits)
  with e have "mset (stageErrors s1) = mset (expectedErrors1 env members)"
    by simp
  moreover have "collected (map (\<lambda>t. slotOf (outcome t)) ?tasks) = successfulAnalyses env members"
    by (simp only: stage1_slots successfulAnalyses_def)
  ultimately show ?thesis
    using w by (simp add: runStage1_def)
qed

subsection \<open>Stage 2\<close>

lemma stage2_slots:
  "collected (map (\<lambda>t. slotOf (outcome t)) (map (stage2Task env stage1) xs))
     = List.map_filter
         (\<lambda>(i, member). case stage2Outcome env stage1 i member of
                            Inl msg \<Rightarrow> None
                          | Inr review \<Rightarrow> Some review) xs"
  by (induction xs)
     (auto simp: collected_def stage2Task_def split: sum.splits)

lemma runStage2_result:
  assumes limit: "1 \<le> limit" and len: "2 * length members \<le> length (settleOrder2 env)"
  shows "\<exists>stage2 s2. runStage2 env stage1 members limit s = Some (stage2, s2)
           \<and> peerReviews stage2 = completedReviews env stage1 members
           \<and> mset (errors2 stage2) = mset (expectedErrors2 env stage1 members)"
proof -
  let ?tasks = "map (stage2Task env stage1) (enumerate 0 members)"
  let ?a = "\<lambda>i :: nat. [] :: StageError list"
  let ?b = "\<lambda>i. case stage2Outcome env stage1 i (members ! i) of
                   Inl msg \<Rightarrow> [stage2Error (members ! i) msg]
                 | Inr r \<Rightarrow> []"
  have nth: "?tasks ! i = stage2Task env stage1 (i, members ! i)" if "i < length members" for i
    using that by (simp add: nth_enumerate_eq)
  have fin: "stageErrors (finish_task (stage2Task env stage1 (i, member)) x)
               = stageErrors x @ (case stage2Outcome env stage1 i member of
                                    Inl msg \<Rightarrow> [stage2Error member msg]
                                  | Inr r \<Rightarrow> [])" for i member x
    by (simp add: stage2Task_def stage2Error_def split: sum.splits)
  have beg: "stageErrors (begin_task (stage2Task env stage1 (i, member)) x) = stageErrors x @ []"
    for i member x
    by (simp add: stage2Task_def)
  have "\<exists>s'. withConcurrencyLimit ?tasks limit (settleOrder2 env) (s\<lparr>stageErrors := []\<rparr>)
                 = Some (map (\<lambda>t. slotOf (outcome t)) ?tasks, s')
              \<and> mset (stageErrors s')
                  = mset (stageErrors (s\<lparr>stageErrors := []\<rparr>))
                    + mset (concat (map (\<lambda>i. ?a i @ ?b i) [0..<length ?tasks]))"
  proof (rule stage_log[where g = stageErrors and a = ?a and b = ?b])
    show "1 \<le> limit" by (rule limit)
    show "2 * length ?tasks \<le> length (settleOrder2 env)" using len by simp
    show "stageErrors (begin_task (?tasks ! i) x) = stageErrors x @ ?a i"
      if "i < length ?tasks" for i x
      using that by (simp add: nth_enumerate_eq beg)
    show "stageErrors (finish_task (?tasks ! i) x) = stageErrors x @ ?b i"
      if "i < length ?tasks" for i x
      using that by (simp add: nth_enumerate_eq fin)
  qed
  then obtain s2 where
    w: "withConcurrencyLimit ?tasks limit (settleOrder2 env) (s\<lparr>stageErrors := []\<rparr>)
          = Some (map (\<lambda>t. slotOf (outcome t)) ?tasks, s2)"
    and e: "mset (stageErrors s2) = mset (concat (map (\<lambda>i. ?a i @ ?b i) [0..<length members]))"
    by auto
  have "concat (map (\<lambda>i. ?a i @ ?b i) [0..<length members]) = expectedErrors2 env stage1 members"
    unfolding expectedErrors2_def map_filter_concat enumerate_upt map_map comp_def
    by (rule arg_cong[where f = concat], rule map_cong)
       (auto split: sum.splits)
  with e have "mset (stageErrors s2) = mset (expectedErrors2 env stage1 members)"
    by simp
  moreover have "collected (map (\<lambda>t. slotOf (outcome t)) ?tasks) = completedReviews env stage1 members"
    by (simp only: stage2_slots completedReviews_def)
  ultimately show ?thesis
    using w by (simp add: runStage2_def)
qed

subsection \<open>The gate\<close>

lemma length_assignLabels: "length (assignLabels ms) = length ms"
  by (simp add: assignLabels_def)

text \<open>
  Claim C1. Take a deliberation on an appropriate query, with a concurrency limit of at
  least 1, in which the calls of each stage settle. Stage 1 returns; its analyses are
  those of the members whose task succeeds, and its errors are the error entries of the
  members whose task fails, one for each. No Stage-2 call has been dispatched by then.
  If the number of analyses is below the minimum (the configured number of seats, or 2
  when none is configured), \<^verbatim>\<open>deliberate\<close> throws a \<^verbatim>\<open>CouncilQuorumError\<close> that carries
  this number, the minimum and the errors of Stage 1, in the session as Stage 1 left
  it. Otherwise Stage 2 returns, with the reviews of the members whose review succeeds
  and an error entry for each of the others, and if the number of reviews is below the
  minimum, \<^verbatim>\<open>deliberate\<close> throws a \<^verbatim>\<open>CouncilQuorumError\<close> that carries this number, the
  minimum and the errors of Stage 2.
\<close>

theorem quorum_gate:
  assumes "appropriate env" and "1 \<le> concurrencyLimit config"
    and "2 * length (councilModels config) \<le> length (settleOrder1 env)"
    and "2 * length (councilModels config) \<le> length (settleOrder2 env)"
  shows "minQuorumOf config = (if minimumSeats config = 0 then 2 else minimumSeats config)
    \<and> (\<exists>stage1 s1.
         runStage1 h env (assignLabels (councilModels config)) (concurrencyLimit config)
           emptySession = Some (stage1, s1)
       \<and> analyses stage1 = successfulAnalyses env (assignLabels (councilModels config))
       \<and> mset (errors1 stage1) = mset (expectedErrors1 env (assignLabels (councilModels config)))
       \<and> (\<forall>m p. Stage2Call m p \<notin> set (calls s1))
       \<and> (length (analyses stage1) < minQuorumOf config \<longrightarrow>
            deliberate h env config
              = Some (Inl (CouncilQuorumError
                             (quorumMessage1 (length (analyses stage1))
                                (length (councilModels config)) (minQuorumOf config))
                             (length (analyses stage1)) (minQuorumOf config) (errors1 stage1)),
                      s1))
       \<and> (minQuorumOf config \<le> length (analyses stage1) \<longrightarrow>
            (\<exists>stage2 s2.
               runStage2 env stage1 (assignLabels (councilModels config)) (concurrencyLimit config)
                 s1 = Some (stage2, s2)
             \<and> peerReviews stage2
                 = completedReviews env stage1 (assignLabels (councilModels config))
             \<and> mset (errors2 stage2)
                 = mset (expectedErrors2 env stage1 (assignLabels (councilModels config)))
             \<and> (length (peerReviews stage2) < minQuorumOf config \<longrightarrow>
                  deliberate h env config
                    = Some (Inl (CouncilQuorumError
                                   (quorumMessage2 (length (peerReviews stage2))
                                      (minQuorumOf config))
                                   (length (peerReviews stage2)) (minQuorumOf config)
                                   (errors2 stage2)),
                            s2)))))"
proof -
  let ?members = "assignLabels (councilModels config)"
  let ?limit = "concurrencyLimit config"
  have len1: "2 * length ?members \<le> length (settleOrder1 env)"
    and len2: "2 * length ?members \<le> length (settleOrder2 env)"
    using assms(3,4) by (simp_all add: length_assignLabels)
  from runStage1_result[OF assms(2) len1, of h emptySession]
  obtain stage1 s1 where
    run1: "runStage1 h env ?members ?limit emptySession = Some (stage1, s1)"
    and an: "analyses stage1 = successfulAnalyses env ?members"
    and er: "mset (errors1 stage1) = mset (expectedErrors1 env ?members)"
    by blast
  have nocall: "\<forall>m p. Stage2Call m p \<notin> set (calls s1)"
    by (rule stage1_calls[OF run1]) (simp add: emptySession_def)
  from runStage2_result[OF assms(2) len2, of stage1 s1]
  obtain stage2 s2 where
    run2: "runStage2 env stage1 ?members ?limit s1 = Some (stage2, s2)"
    and rv: "peerReviews stage2 = completedReviews env stage1 ?members"
    and er2: "mset (errors2 stage2) = mset (expectedErrors2 env stage1 ?members)"
    by blast
  have d1: "deliberate h env config
              = Some (Inl (CouncilQuorumError
                             (quorumMessage1 (length (analyses stage1))
                                (length (councilModels config)) (minQuorumOf config))
                             (length (analyses stage1)) (minQuorumOf config) (errors1 stage1)),
                      s1)"
    if "length (analyses stage1) < minQuorumOf config"
    using that assms(1) run1
    unfolding deliberate_def Let_def emptySession_def[symmetric]
    by (simp add: length_assignLabels)
  have d2: "deliberate h env config
              = Some (Inl (CouncilQuorumError
                             (quorumMessage2 (length (peerReviews stage2)) (minQuorumOf config))
                             (length (peerReviews stage2)) (minQuorumOf config)
                             (errors2 stage2)),
                      s2)"
    if "minQuorumOf config \<le> length (analyses stage1)"
      and "length (peerReviews stage2) < minQuorumOf config"
    using that assms(1) run1 run2
    unfolding deliberate_def Let_def emptySession_def[symmetric]
    by simp
  have q: "minQuorumOf config = (if minimumSeats config = 0 then 2 else minimumSeats config)"
    by (simp add: minQuorumOf_def DEFAULT_MINIMUM_QUORUM_def)
  from run2 rv er2 d2 have stage2: "minQuorumOf config \<le> length (analyses stage1) \<longrightarrow>
            (\<exists>stage2 s2.
               runStage2 env stage1 ?members ?limit s1 = Some (stage2, s2)
             \<and> peerReviews stage2 = completedReviews env stage1 ?members
             \<and> mset (errors2 stage2) = mset (expectedErrors2 env stage1 ?members)
             \<and> (length (peerReviews stage2) < minQuorumOf config \<longrightarrow>
                  deliberate h env config
                    = Some (Inl (CouncilQuorumError
                                   (quorumMessage2 (length (peerReviews stage2))
                                      (minQuorumOf config))
                                   (length (peerReviews stage2)) (minQuorumOf config)
                                   (errors2 stage2)),
                            s2)))"
    by blast
  from run1 an er nocall d1 stage2 have "\<exists>stage1 s1.
         runStage1 h env ?members ?limit emptySession = Some (stage1, s1)
       \<and> analyses stage1 = successfulAnalyses env ?members
       \<and> mset (errors1 stage1) = mset (expectedErrors1 env ?members)
       \<and> (\<forall>m p. Stage2Call m p \<notin> set (calls s1))
       \<and> (length (analyses stage1) < minQuorumOf config \<longrightarrow>
            deliberate h env config
              = Some (Inl (CouncilQuorumError
                             (quorumMessage1 (length (analyses stage1))
                                (length (councilModels config)) (minQuorumOf config))
                             (length (analyses stage1)) (minQuorumOf config) (errors1 stage1)),
                      s1))
       \<and> (minQuorumOf config \<le> length (analyses stage1) \<longrightarrow>
            (\<exists>stage2 s2.
               runStage2 env stage1 ?members ?limit s1 = Some (stage2, s2)
             \<and> peerReviews stage2 = completedReviews env stage1 ?members
             \<and> mset (errors2 stage2) = mset (expectedErrors2 env stage1 ?members)
             \<and> (length (peerReviews stage2) < minQuorumOf config \<longrightarrow>
                  deliberate h env config
                    = Some (Inl (CouncilQuorumError
                                   (quorumMessage2 (length (peerReviews stage2))
                                      (minQuorumOf config))
                                   (length (peerReviews stage2)) (minQuorumOf config)
                                   (errors2 stage2)),
                            s2))))"
    by blast
  with q show ?thesis by (rule conjI)
qed

lemma gate_stage1:
  "map_option (\<lambda>(r, s). (analyses r, errors1 r, calls s))
     (runStage1 noHeuristics gate_env (assignLabels (councilModels gate_config))
        (concurrencyLimit gate_config) emptySession)
   = Some ([], gate_errors, [])"
  by code_simp

lemma gate_message:
  "quorumMessage1 0 3 2
     = ''Council failed to reach quorum. Only 0 of 3 members responded. Minimum required: 2''"
  by code_simp

text \<open>
  The theorem at a council of three models with a minimum of two seats, in the
  environment of the repository, where no global \<^verbatim>\<open>sessionId\<close> is bound: every Stage-1
  task fails before its model is called, and \<^verbatim>\<open>deliberate\<close> throws the quorum error with
  the count 0, the minimum 2 and the three errors, no call having been dispatched.
\<close>

theorem quorum_gate_witness:
  "appropriate gate_env
   \<and> 1 \<le> concurrencyLimit gate_config
   \<and> 2 * length (councilModels gate_config) \<le> length (settleOrder1 gate_env)
   \<and> 2 * length (councilModels gate_config) \<le> length (settleOrder2 gate_env)
   \<and> map_option fst (deliberate noHeuristics gate_env gate_config)
       = Some (Inl (CouncilQuorumError
            ''Council failed to reach quorum. Only 0 of 3 members responded. Minimum required: 2''
            0 2 gate_errors))
   \<and> map_option (calls \<circ> snd) (deliberate noHeuristics gate_env gate_config) = Some []"
proof -
  have h1: "appropriate gate_env"
    and h2: "1 \<le> concurrencyLimit gate_config"
    and h3: "2 * length (councilModels gate_config) \<le> length (settleOrder1 gate_env)"
    and h4: "2 * length (councilModels gate_config) \<le> length (settleOrder2 gate_env)"
    by (simp_all add: gate_env_def scenario_def gate_config_def)
  have q: "minQuorumOf gate_config = 2" and k: "length (councilModels gate_config) = 3"
    by (simp_all add: minQuorumOf_def gate_config_def)
  from quorum_gate[OF h1 h2 h3 h4, of noHeuristics]
  obtain stage1 s1 where
    run: "runStage1 noHeuristics gate_env (assignLabels (councilModels gate_config))
            (concurrencyLimit gate_config) emptySession = Some (stage1, s1)"
    and thrown: "length (analyses stage1) < minQuorumOf gate_config \<longrightarrow>
            deliberate noHeuristics gate_env gate_config
              = Some (Inl (CouncilQuorumError
                             (quorumMessage1 (length (analyses stage1))
                                (length (councilModels gate_config)) (minQuorumOf gate_config))
                             (length (analyses stage1)) (minQuorumOf gate_config)
                             (errors1 stage1)),
                      s1)"
    by blast
  from gate_stage1 run have r: "analyses stage1 = []" "errors1 stage1 = gate_errors" "calls s1 = []"
    by simp_all
  with thrown q k have "deliberate noHeuristics gate_env gate_config
              = Some (Inl (CouncilQuorumError (quorumMessage1 0 3 2) 0 2 gate_errors), s1)"
    by simp
  with r h1 h2 h3 h4 show ?thesis
    by (simp add: gate_message)
qed

end
